theory Spec2Isabelle
  imports Main "HOL-Library.Multiset"
begin

section \<open>Text, as Go strings: sequences of bytes\<close>

text \<open>
  A Go \<^verbatim>\<open>string\<close> is a byte sequence; the regular expressions and the \<^verbatim>\<open>strings\<close>
  functions of the handlers decode it as UTF-8. Every character the handlers' patterns
  name is ASCII except for two case-folding partners (see \<open>eat_fold\<close>), so the model
  works on bytes and spells the few multi-byte sequences out.
\<close>

definition is_id_char :: "char \<Rightarrow> bool" where
  \<comment> \<open>the class \<^verbatim>\<open>[A-Z0-9]\<close>\<close>
  "is_id_char c \<longleftrightarrow> c \<in> set ''ABCDEFGHIJKLMNOPQRSTUVWXYZ0123456789''"

definition is_space :: "char \<Rightarrow> bool" where
  \<comment> \<open>the class \<^verbatim>\<open>\s\<close> of Go's regexp: tab, newline, form feed, carriage return, space\<close>
  "is_space c \<longleftrightarrow> c \<in> set [CHR 0x09, CHR 0x0A, CHR 0x0C, CHR 0x0D, CHR 0x20]"

definition is_word :: "char \<Rightarrow> bool" where
  \<comment> \<open>the ASCII word characters \<^verbatim>\<open>[0-9A-Za-z_]\<close> that \<^verbatim>\<open>\b\<close> looks at\<close>
  "is_word c \<longleftrightarrow>
     c \<in> set ''0123456789ABCDEFGHIJKLMNOPQRSTUVWXYZ_abcdefghijklmnopqrstuvwxyz''"

definition ascii_upper :: "char \<Rightarrow> char" where
  "ascii_upper c =
     (case map_of (zip ''abcdefghijklmnopqrstuvwxyz'' ''ABCDEFGHIJKLMNOPQRSTUVWXYZ'') c of
        Some u \<Rightarrow> u
      | None \<Rightarrow> c)"

subsection \<open>\<^verbatim>\<open>karmaRegex = <@([A-Z0-9]+)>\s*\+\+\<close>\<close>

text \<open>
  \<open>mention_at s\<close> matches \<^verbatim>\<open><@([A-Z0-9]+)>\<close> at the head of \<open>s\<close> and returns the captured
  identifier and the text after the \<^verbatim>\<open>>\<close>. The greedy class is followed by a character
  outside the class, so the longest run is the only candidate.
\<close>

definition mention_at :: "string \<Rightarrow> (string \<times> string) option" where
  "mention_at s =
     (case s of
        c1 # c2 # r \<Rightarrow>
          if c1 = CHR ''<'' \<and> c2 = CHR ''@'' then
            (let ident = takeWhile is_id_char r; r' = dropWhile is_id_char r
             in case r' of
                  [] \<Rightarrow> None
                | g # r'' \<Rightarrow> if ident \<noteq> [] \<and> g = CHR ''>'' then Some (ident, r'') else None)
          else None
      | _ \<Rightarrow> None)"

text \<open>
  \<open>karma_at s\<close> matches the whole pattern at the head of \<open>s\<close>. The match is returned the
  way \<^verbatim>\<open>FindAllStringSubmatch\<close> reports it, as the list of the matched text and the
  text of group 1, together with the text after the match.
\<close>

definition karma_at :: "string \<Rightarrow> (string list \<times> string) option" where
  "karma_at s =
     (case mention_at s of
        None \<Rightarrow> None
      | Some (ident, r) \<Rightarrow>
          (let ws = takeWhile is_space r; r' = dropWhile is_space r
           in case r' of
                p1 # p2 # rest \<Rightarrow>
                  if p1 = CHR ''+'' \<and> p2 = CHR ''+''
                  then Some ([''<@'' @ ident @ ''>'' @ ws @ ''++'', ident], rest)
                  else None
              | _ \<Rightarrow> None))"

lemma mention_at_shorter: "mention_at s = Some (ident, r) \<Longrightarrow> length r < length s"
proof -
  assume a: "mention_at s = Some (ident, r)"
  then obtain c1 c2 t where s: "s = c1 # c2 # t"
    by (cases s rule: list.exhaust; cases "tl s") (auto simp: mention_at_def)
  from a s obtain g where "dropWhile is_id_char t = g # r"
    by (auto simp: mention_at_def Let_def split: list.splits if_splits)
  then have "length (g # r) \<le> length t"
    by (metis length_dropWhile_le)
  with s show ?thesis by simp
qed

lemma karma_at_shorter: "karma_at s = Some (m, rest) \<Longrightarrow> length rest < length s"
proof -
  assume a: "karma_at s = Some (m, rest)"
  then obtain ident r where m: "mention_at s = Some (ident, r)"
    by (auto simp: karma_at_def split: option.splits)
  from a m obtain p1 p2 where "dropWhile is_space r = p1 # p2 # rest"
    by (auto simp: karma_at_def Let_def split: list.splits if_splits)
  then have "length (p1 # p2 # rest) \<le> length r"
    by (metis length_dropWhile_le)
  with mention_at_shorter [OF m] show ?thesis by simp
qed

text \<open>
  \<^verbatim>\<open>karmaRegex.FindAllStringSubmatch(text, -1)\<close>: the successive leftmost matches, each
  search resuming where the previous match ended.
\<close>

function karmaRegex_FindAllStringSubmatch :: "string \<Rightarrow> string list list" where
  "karmaRegex_FindAllStringSubmatch [] = []"
| "karmaRegex_FindAllStringSubmatch (c # cs) =
     (case karma_at (c # cs) of
        Some (m, rest) \<Rightarrow> m # karmaRegex_FindAllStringSubmatch rest
      | None \<Rightarrow> karmaRegex_FindAllStringSubmatch cs)"
  by pat_completeness auto
termination
  by (relation "measure length") (auto dest: karma_at_shorter)


subsection \<open>\<^verbatim>\<open>userMentionRegex = <@([A-Z0-9]+)>\<close>\<close>

function userMentionRegex_FindAllStringSubmatch :: "string \<Rightarrow> string list list" where
  "userMentionRegex_FindAllStringSubmatch [] = []"
| "userMentionRegex_FindAllStringSubmatch (c # cs) =
     (case mention_at (c # cs) of
        Some (ident, rest) \<Rightarrow>
          [''<@'' @ ident @ ''>'', ident] # userMentionRegex_FindAllStringSubmatch rest
      | None \<Rightarrow> userMentionRegex_FindAllStringSubmatch cs)"
  by pat_completeness auto
termination
  by (relation "measure length") (auto dest: mention_at_shorter)

subsection \<open>\<^verbatim>\<open>thankYouRegex = (?i)\b(thank\s*(you|u)|thanks|thx|ty)\b\<close>\<close>

text \<open>
  Under \<^verbatim>\<open>(?i)\<close> Go's regexp matches a pattern letter against every rune of its
  simple case-folding orbit. For the letters of this pattern that is the lower-case and the
  upper-case ASCII letter, and two more runes: \<^verbatim>\<open>k\<close> also matches the Kelvin sign
  U+212A (UTF-8 \<^verbatim>\<open>E2 84 AA\<close>) and \<^verbatim>\<open>s\<close> also matches the long s U+017F (UTF-8
  \<^verbatim>\<open>C5 BF\<close>). \<open>eat_fold p s\<close> consumes one rune of \<open>s\<close> matching the lower-case
  pattern letter \<open>p\<close>; it returns the rest and whether the rune consumed is an ASCII word
  character, which the \<^verbatim>\<open>\b\<close> after the match needs to know.
\<close>

fun eat_fold :: "char \<Rightarrow> string \<Rightarrow> (bool \<times> string) option" where
  "eat_fold p [] = None"
| "eat_fold p (c # cs) =
     (if c = p \<or> c = ascii_upper p then Some (True, cs)
      else if p = CHR ''k'' \<and> c = CHR 0xE2 \<and> take 2 cs = [CHR 0x84, CHR 0xAA]
        then Some (False, drop 2 cs)
      else if p = CHR ''s'' \<and> c = CHR 0xC5 \<and> take 1 cs = [CHR 0xBF]
        then Some (False, drop 1 cs)
      else None)"

text \<open>
  \<open>lit_ci lw p s\<close> matches the lower-case literal \<open>p\<close> at the head of \<open>s\<close>, ignoring
  case; \<open>lw\<close> says whether the rune before is a word character and is returned when
  \<open>p\<close> is empty.
\<close>

fun lit_ci :: "bool \<Rightarrow> string \<Rightarrow> string \<Rightarrow> (bool \<times> string) option" where
  "lit_ci lw [] s = Some (lw, s)"
| "lit_ci lw (p # ps) s =
     (case eat_fold p s of
        None \<Rightarrow> None
      | Some (w, r) \<Rightarrow> lit_ci w ps r)"

text \<open>
  The group \<^verbatim>\<open>(thank\s*(you|u)|thanks|thx|ty)\<close> at the head of \<open>s\<close>: every way it can
  match, in the order of the alternatives, each as the pair of "the last rune consumed is a
  word character" and the rest of the text. After \<^verbatim>\<open>\s*\<close> comes a letter, which is not
  white space, so only the longest run of white space can lead to a match.
\<close>

definition thank_group :: "string \<Rightarrow> (bool \<times> string) list" where
  "thank_group s =
     (case lit_ci False ''thank'' s of
        None \<Rightarrow> []
      | Some (w, r) \<Rightarrow>
          (let r' = dropWhile is_space r
           in (case lit_ci w ''you'' r' of None \<Rightarrow> [] | Some x \<Rightarrow> [x])
            @ (case lit_ci w ''u'' r' of None \<Rightarrow> [] | Some x \<Rightarrow> [x])))
     @ (case lit_ci False ''thanks'' s of None \<Rightarrow> [] | Some x \<Rightarrow> [x])
     @ (case lit_ci False ''thx'' s of None \<Rightarrow> [] | Some x \<Rightarrow> [x])
     @ (case lit_ci False ''ty'' s of None \<Rightarrow> [] | Some x \<Rightarrow> [x])"

definition word_boundary :: "bool \<Rightarrow> string \<Rightarrow> bool" where
  \<comment> \<open>\<^verbatim>\<open>\b\<close> between a rune that is (or is not) a word character and the text \<open>s\<close>;
      the start and the end of the text count as non-word\<close>
  "word_boundary lw s \<longleftrightarrow> lw \<noteq> (case s of [] \<Rightarrow> False | c # _ \<Rightarrow> is_word c)"

definition thank_at :: "bool \<Rightarrow> string \<Rightarrow> bool" where
  \<comment> \<open>the whole pattern matches starting here, \<open>lw\<close> describing the rune before\<close>
  "thank_at lw s \<longleftrightarrow>
     word_boundary lw s \<and> list_ex (\<lambda>(w, r). word_boundary w r) (thank_group s)"

fun thank_scan :: "bool \<Rightarrow> string \<Rightarrow> bool" where
  "thank_scan lw [] = thank_at lw []"
| "thank_scan lw (c # cs) = (thank_at lw (c # cs) \<or> thank_scan (is_word c) cs)"

definition thankYouRegex_MatchString :: "string \<Rightarrow> bool" where
  "thankYouRegex_MatchString s = thank_scan False s"


section \<open>The ledger (\<^verbatim>\<open>internal/models\<close>, \<^verbatim>\<open>internal/database\<close>)\<close>

text \<open>
  A table is the list of its rows in row-id order. The columns that no handler reads back
  are left out of the rows: the surrogate \<^verbatim>\<open>id\<close> that the engine assigns, and the
  \<^verbatim>\<open>updated_at\<close> and \<^verbatim>\<open>timestamp\<close> columns that receive the wall clock. The
  \<^verbatim>\<open>anniversaries\<close> table and its operations mirror the birthday ones, touch no other
  table, and are left out. SQLite
  integers and Go's \<^verbatim>\<open>int\<close> are 64-bit; scores and dates stay far from that range (a score
  grows by one per message), so they are modelled as \<open>int\<close>, and the one place where
  the range decides something, \<^verbatim>\<open>strconv.Atoi\<close>, checks it.
\<close>

record User =
  u_ID :: string
  u_Username :: string
  u_RealName :: string
  u_Email :: string

record Karma =
  k_UserID :: string
  k_Username :: string
  k_Score :: int

record KarmaLog =
  l_UserID :: string
  l_GivenBy :: string
  l_Reason :: string
  l_Change :: int
  l_Channel :: string

record Birthday =
  b_UserID :: string
  b_Username :: string
  b_Month :: int
  b_Day :: int
  b_Year :: int
  b_Timezone :: string

record SassyResponse =
  s_Response :: string
  s_Category :: string
  s_Active :: bool

record Database =
  users :: "User list"
  karma :: "Karma list"
  karma_log :: "KarmaLog list"
  birthdays :: "Birthday list"
  sassy_responses :: "SassyResponse list"

datatype error =
    ErrNoRows     \<comment> \<open>\<^verbatim>\<open>sql.ErrNoRows\<close>: the query selected no row\<close>
  | ErrDriver     \<comment> \<open>any other error of a statement\<close>
  | ErrSlack      \<comment> \<open>an error of a call to the chat platform\<close>

text \<open>
  A statement can fail in the engine. Each operation takes the fault that the environment
  injects into this call: \<open>True\<close> makes its statement fail.
\<close>

definition createTables :: "Database" where
  \<comment> \<open>the state after \<^verbatim>\<open>CREATE TABLE IF NOT EXISTS\<close> on a new file: empty tables\<close>
  "createTables = \<lparr>users = [], karma = [], karma_log = [], birthdays = [], sassy_responses = []\<rparr>"

definition UpsertUser :: "bool \<Rightarrow> User \<Rightarrow> Database \<Rightarrow> error option \<times> Database" where
  \<comment> \<open>\<^verbatim>\<open>INSERT OR REPLACE INTO users\<close>, \<^verbatim>\<open>id\<close> being the primary key\<close>
  "UpsertUser fault user d =
     (if fault then (Some ErrDriver, d)
      else (None, d\<lparr>users := filter (\<lambda>u. u_ID u \<noteq> u_ID user) (users d) @ [user]\<rparr>))"

definition GetKarma :: "bool \<Rightarrow> string \<Rightarrow> Database \<Rightarrow> error + Karma" where
  "GetKarma fault userID d =
     (if fault then Inl ErrDriver
      else case find (\<lambda>k. k_UserID k = userID) (karma d) of
             None \<Rightarrow> Inl ErrNoRows
           | Some k \<Rightarrow> Inr k)"

subsection \<open>\<^verbatim>\<open>IncrementKarma\<close>: two writes in one transaction\<close>

text \<open>
  \<^verbatim>\<open>tx, err := d.db.Begin()\<close> opens a transaction and \<^verbatim>\<open>defer tx.Rollback()\<close> closes it
  on every return; after a successful \<^verbatim>\<open>tx.Commit()\<close> the rollback does nothing. A
  transaction is the state at \<^verbatim>\<open>Begin\<close> together with the state its statements have
  produced so far.
\<close>

record Tx =
  tx_base :: Database
  tx_work :: Database

definition Begin :: "Database \<Rightarrow> Tx" where
  "Begin d = \<lparr>tx_base = d, tx_work = d\<rparr>"

definition Exec :: "(Database \<Rightarrow> Database) \<Rightarrow> Tx \<Rightarrow> Tx" where
  "Exec stmt tx = tx\<lparr>tx_work := stmt (tx_work tx)\<rparr>"

definition Rollback :: "Tx \<Rightarrow> Database" where
  "Rollback tx = tx_base tx"

definition Commit :: "Tx \<Rightarrow> Database" where
  "Commit tx = tx_work tx"

datatype tx_fault =
    NoFault
  | BeginFails      \<comment> \<open>\<^verbatim>\<open>d.db.Begin()\<close> returns an error\<close>
  | UpsertFails     \<comment> \<open>the insert-or-increment statement returns an error\<close>
  | LogFails        \<comment> \<open>the insert into \<^verbatim>\<open>karma_log\<close> returns an error\<close>
  | CommitFails     \<comment> \<open>\<^verbatim>\<open>tx.Commit()\<close> returns an error\<close>

definition upsert_karma :: "string \<Rightarrow> string \<Rightarrow> Database \<Rightarrow> Database" where
  \<comment> \<open>\<^verbatim>\<open>INSERT INTO karma (user_id, username, score, updated_at) VALUES (?, ?, 1, ?)
      ON CONFLICT(user_id) DO UPDATE SET score = score + 1, updated_at = ?\<close>\<close>
  "upsert_karma userID username d =
     (if \<exists>k \<in> set (karma d). k_UserID k = userID
      then d\<lparr>karma := map (\<lambda>k. if k_UserID k = userID then k\<lparr>k_Score := k_Score k + 1\<rparr> else k)
                          (karma d)\<rparr>
      else d\<lparr>karma := karma d @ [\<lparr>k_UserID = userID, k_Username = username, k_Score = 1\<rparr>]\<rparr>)"

definition insert_karma_log ::
    "string \<Rightarrow> string \<Rightarrow> string \<Rightarrow> string \<Rightarrow> Database \<Rightarrow> Database" where
  \<comment> \<open>\<^verbatim>\<open>INSERT INTO karma_log (user_id, given_by, reason, change, timestamp, channel)
      VALUES (?, ?, ?, 1, ?, ?)\<close>\<close>
  "insert_karma_log userID givenBy reason channel d =
     d\<lparr>karma_log := karma_log d @
        [\<lparr>l_UserID = userID, l_GivenBy = givenBy, l_Reason = reason, l_Change = 1,
          l_Channel = channel\<rparr>]\<rparr>"

definition IncrementKarma ::
    "tx_fault \<Rightarrow> string \<Rightarrow> string \<Rightarrow> string \<Rightarrow> string \<Rightarrow> string \<Rightarrow> Database
      \<Rightarrow> error option \<times> Database" where
  "IncrementKarma fault userID username givenBy reason channel d =
     (if fault = BeginFails then (Some ErrDriver, d)
      else
        let tx = Begin d in
        if fault = UpsertFails then (Some ErrDriver, Rollback tx)
        else
          let tx = Exec (upsert_karma userID username) tx in
          if fault = LogFails then (Some ErrDriver, Rollback tx)
          else
            let tx = Exec (insert_karma_log userID givenBy reason channel) tx in
            if fault = CommitFails then (Some ErrDriver, Rollback tx)
            else (None, Commit tx))"

subsection \<open>Queries\<close>

text \<open>
  \<^verbatim>\<open>SELECT ... FROM karma ORDER BY score DESC LIMIT ?\<close>. The engine sorts the rows by
  descending score; the order it gives to rows of equal score is its own, and the model
  keeps them in table order (a stable sort). A negative \<^verbatim>\<open>LIMIT\<close> means no limit.
\<close>

definition GetTopKarma :: "bool \<Rightarrow> int \<Rightarrow> Database \<Rightarrow> error + Karma list" where
  "GetTopKarma fault limit d =
     (if fault then Inl ErrDriver
      else
        let rows = sort_key (\<lambda>k. - k_Score k) (karma d)
        in Inr (if limit < 0 then rows else take (nat limit) rows))"

definition SetBirthday :: "bool \<Rightarrow> Birthday \<Rightarrow> Database \<Rightarrow> error option \<times> Database" where
  \<comment> \<open>\<^verbatim>\<open>INSERT OR REPLACE INTO birthdays\<close>, \<^verbatim>\<open>user_id\<close> being unique: a row of the same
      user is deleted and the new row is inserted\<close>
  "SetBirthday fault birthday d =
     (if fault then (Some ErrDriver, d)
      else (None, d\<lparr>birthdays :=
              filter (\<lambda>b. b_UserID b \<noteq> b_UserID birthday) (birthdays d) @ [birthday]\<rparr>))"

definition GetTodaysBirthdays :: "bool \<Rightarrow> int \<Rightarrow> int \<Rightarrow> Database \<Rightarrow> error + Birthday list" where
  \<comment> \<open>\<open>month\<close> and \<open>day\<close> are \<^verbatim>\<open>time.Now()\<close>'s, read by the caller's environment\<close>
  "GetTodaysBirthdays fault month day d =
     (if fault then Inl ErrDriver
      else Inr (filter (\<lambda>b. b_Month b = month \<and> b_Day b = day) (birthdays d)))"

definition GetRandomSassyResponse ::
    "bool \<Rightarrow> nat \<Rightarrow> string \<Rightarrow> Database \<Rightarrow> error + SassyResponse" where
  \<comment> \<open>\<^verbatim>\<open>... WHERE category = ? AND active = 1 ORDER BY RANDOM() LIMIT 1\<close>; \<open>rnd\<close> is the
      engine's random choice\<close>
  "GetRandomSassyResponse fault rnd category d =
     (if fault then Inl ErrDriver
      else
        let rows = filter (\<lambda>r. s_Category r = category \<and> s_Active r) (sassy_responses d)
        in if rows = [] then Inl ErrNoRows else Inr (rows ! (rnd mod length rows)))"


subsection \<open>Seeding the canned responses\<close>

definition default_responses :: "SassyResponse list" where
  "default_responses =
    [
     \<lparr>s_Response = ''Oh, you'' @ [CHR 0x27] @ ''re being polite now? How refreshing! Here''
         @ [CHR 0x27] @ ''s some karma for good manners. ''
         @ [CHR 0xF0, CHR 0x9F, CHR 0x92, CHR 0xAB],
      s_Category = ''thank_you'', s_Active = True\<rparr>,
     \<lparr>s_Response = ''Look who remembered their manners! Take some karma, you well-behaved human. ''
         @ [CHR 0xE2, CHR 0x9C, CHR 0xA8],
      s_Category = ''thank_you'', s_Active = True\<rparr>,
     \<lparr>s_Response = ''Gratitude detected! Don'' @ [CHR 0x27]
         @ ''t get used to this generosity though... '' @ [CHR 0xF0, CHR 0x9F, CHR 0x98, CHR 0x8F],
      s_Category = ''thank_you'', s_Active = True\<rparr>,
     \<lparr>s_Response = ''Thank you? In THIS economy? Fine, here'' @ [CHR 0x27]
         @ ''s your karma. '' @ [CHR 0xF0, CHR 0x9F, CHR 0x92, CHR 0xB8],
      s_Category = ''thank_you'', s_Active = True\<rparr>,
     \<lparr>s_Response = ''Well well well, someone said thank you. I'' @ [CHR 0x27]
         @ ''m impressed. Have some karma! '' @ [CHR 0xF0, CHR 0x9F, CHR 0x8E, CHR 0xAD],
      s_Category = ''thank_you'', s_Active = True\<rparr>,
     \<lparr>s_Response = ''Karma delivered with a side of sass! You'' @ [CHR 0x27]
         @ ''re welcome. '' @ [CHR 0xF0, CHR 0x9F, CHR 0x92, CHR 0x85],
      s_Category = ''karma_given'', s_Active = True\<rparr>,
     \<lparr>s_Response = ''Another karma point hits the bank! Keep spreading those good vibes. ''
         @ [CHR 0xF0, CHR 0x9F, CHR 0x8F, CHR 0xA6],
      s_Category = ''karma_given'', s_Active = True\<rparr>,
     \<lparr>s_Response = ''Karma level up! Someone'' @ [CHR 0x27] @ ''s been a good human today. ''
         @ [CHR 0xF0, CHR 0x9F, CHR 0x93, CHR 0x88],
      s_Category = ''karma_given'', s_Active = True\<rparr>,
     \<lparr>s_Response = ''Ding! Karma deposited. Your account is looking mighty fine! ''
         @ [CHR 0xF0, CHR 0x9F, CHR 0x92, CHR 0xB0],
      s_Category = ''karma_given'', s_Active = True\<rparr>,
     \<lparr>s_Response = ''Karma inflation is real, but you earned this one! ''
         @ [CHR 0xF0, CHR 0x9F, CHR 0x93, CHR 0x8A],
      s_Category = ''karma_given'', s_Active = True\<rparr>
    ]"

text \<open>
  For each default response the seeding asks whether a row with this exact text exists and
  inserts the response when the answer is \<^verbatim>\<open>sql.ErrNoRows\<close>. Any other error of the
  question is skipped without a word; an error of the insert ends the seeding.
\<close>

datatype seed_fault =
    SeedOk
  | ExistsFails     \<comment> \<open>the \<^verbatim>\<open>SELECT 1 ... WHERE response = ?\<close> returns an error other than
                        \<^verbatim>\<open>sql.ErrNoRows\<close>\<close>
  | InsertFails     \<comment> \<open>the \<^verbatim>\<open>INSERT INTO sassy_responses\<close> returns an error\<close>

definition response_exists :: "bool \<Rightarrow> string \<Rightarrow> Database \<Rightarrow> error option" where
  \<comment> \<open>the error of \<^verbatim>\<open>QueryRow("SELECT 1 FROM sassy_responses WHERE response = ?").Scan(&exists)\<close>\<close>
  "response_exists fault txt d =
     (if fault then Some ErrDriver
      else if \<exists>r \<in> set (sassy_responses d). s_Response r = txt then None
      else Some ErrNoRows)"

fun seed_loop :: "(nat \<Rightarrow> seed_fault) \<Rightarrow> nat \<Rightarrow> SassyResponse list \<Rightarrow> Database
    \<Rightarrow> error option \<times> Database" where
  "seed_loop faults i [] d = (None, d)"
| "seed_loop faults i (response # rest) d =
     (if response_exists (faults i = ExistsFails) (s_Response response) d = Some ErrNoRows then
        (if faults i = InsertFails then (Some ErrDriver, d)
         else seed_loop faults (Suc i) rest
                (d\<lparr>sassy_responses := sassy_responses d @ [response]\<rparr>))
      else seed_loop faults (Suc i) rest d)"

definition insertDefaultSassyResponses ::
    "(nat \<Rightarrow> seed_fault) \<Rightarrow> Database \<Rightarrow> error option \<times> Database" where
  \<comment> \<open>\<open>faults i\<close> is the fault injected while the \<open>i\<close>-th default response is handled\<close>
  "insertDefaultSassyResponses faults d = seed_loop faults 0 default_responses d"


section \<open>Formatting and parsing helpers of the Go library\<close>

fun digits_of :: "nat \<Rightarrow> string" where
  "digits_of n =
     (if n < 10 then [''0123456789'' ! n]
      else digits_of (n div 10) @ [''0123456789'' ! (n mod 10)])"

declare digits_of.simps [simp del]

definition fmt_d :: "int \<Rightarrow> string" where
  \<comment> \<open>the verb \<^verbatim>\<open>%d\<close>\<close>
  "fmt_d n = (if n < 0 then CHR ''-'' # digits_of (nat (- n)) else digits_of (nat n))"

definition fmt_02d :: "int \<Rightarrow> string" where
  \<comment> \<open>the verb \<^verbatim>\<open>%02d\<close>: zero-padded to width 2, the sign counting as a column\<close>
  "fmt_02d n =
     (if n < 0 then CHR ''-'' # digits_of (nat (- n))
      else if n < 10 then CHR ''0'' # digits_of (nat n)
      else digits_of (nat n))"

definition go_rem :: "int \<Rightarrow> int \<Rightarrow> int" where
  \<comment> \<open>Go's \<^verbatim>\<open>%\<close> for a positive divisor: the remainder has the sign of the dividend\<close>
  "go_rem a b = (if a < 0 then - ((- a) mod b) else a mod b)"

text \<open>
  \<^verbatim>\<open>strconv.Atoi\<close>: an optional sign and at least one decimal digit, nothing else, and a
  value that fits 64 bits; \<open>None\<close> stands for its error.
\<close>

definition digit_value :: "char \<Rightarrow> int option" where
  "digit_value c = map_of (zip ''0123456789'' [0, 1, 2, 3, 4, 5, 6, 7, 8, 9]) c"

fun decimal_value :: "int \<Rightarrow> string \<Rightarrow> int option" where
  "decimal_value acc [] = Some acc"
| "decimal_value acc (c # cs) =
     (case digit_value c of
        None \<Rightarrow> None
      | Some v \<Rightarrow> decimal_value (10 * acc + v) cs)"

definition Atoi :: "string \<Rightarrow> int option" where
  "Atoi s =
     (let neg = (case s of c # _ \<Rightarrow> c = CHR ''-'' | [] \<Rightarrow> False);
          ds = (case s of c # r \<Rightarrow> if c = CHR ''-'' \<or> c = CHR ''+'' then r else s | [] \<Rightarrow> s)
      in if ds = [] then None
         else case decimal_value 0 ds of
                None \<Rightarrow> None
              | Some n \<Rightarrow>
                  (let v = (if neg then - n else n)
                   in if v < - (2 ^ 63) \<or> 2 ^ 63 - 1 < v then None else Some v))"

text \<open>
  \<^verbatim>\<open>strings.TrimSpace\<close> removes the leading and the trailing white-space runes, as
  \<^verbatim>\<open>unicode.IsSpace\<close> defines them; \<open>space_runes\<close> lists their UTF-8 encodings.
\<close>

definition space_runes :: "string list" where
  "space_runes =
     [[CHR 0x09], [CHR 0x0A], [CHR 0x0B], [CHR 0x0C], [CHR 0x0D], [CHR 0x20],
      [CHR 0xC2, CHR 0x85], [CHR 0xC2, CHR 0xA0],
      [CHR 0xE1, CHR 0x9A, CHR 0x80],
      [CHR 0xE2, CHR 0x80, CHR 0x80], [CHR 0xE2, CHR 0x80, CHR 0x81],
      [CHR 0xE2, CHR 0x80, CHR 0x82], [CHR 0xE2, CHR 0x80, CHR 0x83],
      [CHR 0xE2, CHR 0x80, CHR 0x84], [CHR 0xE2, CHR 0x80, CHR 0x85],
      [CHR 0xE2, CHR 0x80, CHR 0x86], [CHR 0xE2, CHR 0x80, CHR 0x87],
      [CHR 0xE2, CHR 0x80, CHR 0x88], [CHR 0xE2, CHR 0x80, CHR 0x89],
      [CHR 0xE2, CHR 0x80, CHR 0x8A],
      [CHR 0xE2, CHR 0x80, CHR 0xA8], [CHR 0xE2, CHR 0x80, CHR 0xA9],
      [CHR 0xE2, CHR 0x80, CHR 0xAF], [CHR 0xE2, CHR 0x81, CHR 0x9F],
      [CHR 0xE3, CHR 0x80, CHR 0x80]]"

definition rune_at_head :: "string list \<Rightarrow> string \<Rightarrow> string option" where
  \<comment> \<open>the first of the given encodings that the text starts with\<close>
  "rune_at_head runes s = find (\<lambda>r. r \<noteq> [] \<and> take (length r) s = r) runes"

function trim_head :: "string list \<Rightarrow> string \<Rightarrow> string" where
  "trim_head runes s =
     (case rune_at_head runes s of
        None \<Rightarrow> s
      | Some r \<Rightarrow> trim_head runes (drop (length r) s))"
  by pat_completeness auto

lemma rune_at_head_shorter:
  "rune_at_head runes s = Some r \<Longrightarrow> length (drop (length r) s) < length s"
proof -
  assume "rune_at_head runes s = Some r"
  then have r: "r \<noteq> [] \<and> take (length r) s = r"
    unfolding rune_at_head_def by (auto dest: find_Some_iff [THEN iffD1])
  then have "s \<noteq> []" by auto
  with r show ?thesis by simp
qed

termination trim_head
  by (relation "measure (\<lambda>(runes, s). length s)") (auto dest: rune_at_head_shorter)

declare trim_head.simps [simp del]

definition TrimSpace :: "string \<Rightarrow> string" where
  "TrimSpace s = rev (trim_head (map rev space_runes) (rev (trim_head space_runes s)))"

fun Split_slash :: "string \<Rightarrow> string list" where
  \<comment> \<open>\<^verbatim>\<open>strings.Split(s, "/")\<close>\<close>
  "Split_slash [] = [[]]"
| "Split_slash (c # cs) =
     (if c = CHR ''/'' then [] # Split_slash cs
      else case Split_slash cs of
             p # ps \<Rightarrow> (c # p) # ps
           | [] \<Rightarrow> [[c]])"

section \<open>The handlers (\<^verbatim>\<open>internal/handlers\<close>)\<close>

text \<open>
  The chat platform and the wall clock are the handlers' environment. One \<open>Env\<close> holds
  what they answer during one unit of work: the profile lookup (\<open>None\<close> is its error),
  the channel listing, the fault injected into each ledger call, the engine's random
  choice and the date. A post is recorded when the handler issues it; whether the platform
  delivers it is the platform's business, and the handlers only log its error.
\<close>

record SlackUser =
  su_ID :: string
  su_Name :: string
  su_RealName :: string
  su_Email :: string

record Channel =
  ch_ID :: string
  ch_Name :: string

record Env =
  GetUserInfo :: "string \<Rightarrow> SlackUser option"
  GetConversationsForUser :: "Channel list option"
  fault_UpsertUser :: bool
  fault_IncrementKarma :: tx_fault
  fault_GetKarma :: bool
  fault_GetRandomSassyResponse :: bool
  random :: nat
  fault_GetTopKarma :: bool
  fault_SetBirthday :: bool
  fault_GetTodaysBirthdays :: bool
  now_Year :: int
  now_Month :: int
  now_Day :: int

record Post =
  p_Channel :: string
  p_Text :: string
  p_ThreadTS :: "string option"

record World =
  db :: Database
  outbox :: "Post list"

record SlackHandler =
  botID :: string
  peopleChannel :: string
  gratefulChannel :: string

record MessageEvent =
  ev_User :: string
  ev_Text :: string
  ev_Channel :: string
  ev_TimeStamp :: string
  ev_SubType :: string

record SlashCommand =
  cmd_Command :: string
  cmd_Text :: string
  cmd_UserID :: string
  cmd_ChannelID :: string

definition sendMessage :: "string \<Rightarrow> string \<Rightarrow> World \<Rightarrow> World" where
  "sendMessage channel txt w =
     w\<lparr>outbox := outbox w @ [\<lparr>p_Channel = channel, p_Text = txt, p_ThreadTS = None\<rparr>]\<rparr>"

definition sendThreadedMessage :: "string \<Rightarrow> string \<Rightarrow> string \<Rightarrow> World \<Rightarrow> World" where
  "sendThreadedMessage channel threadTS txt w =
     w\<lparr>outbox := outbox w @ [\<lparr>p_Channel = channel, p_Text = txt, p_ThreadTS = Some threadTS\<rparr>]\<rparr>"

definition respondToSlashCommand :: "SlashCommand \<Rightarrow> string \<Rightarrow> World \<Rightarrow> World" where
  "respondToSlashCommand cmd txt w =
     w\<lparr>outbox := outbox w @ [\<lparr>p_Channel = cmd_ChannelID cmd, p_Text = txt, p_ThreadTS = None\<rparr>]\<rparr>"

definition getChannelName :: "string \<Rightarrow> string" where
  "getChannelName channelID = channelID"

definition getOrdinalSuffix :: "int \<Rightarrow> string" where
  "getOrdinalSuffix n =
     (if 11 \<le> go_rem n 100 \<and> go_rem n 100 \<le> 13 then ''th''
      else if go_rem n 10 = 1 then ''st''
      else if go_rem n 10 = 2 then ''nd''
      else if go_rem n 10 = 3 then ''rd''
      else ''th'')"

definition getChannelIDByName :: "Env \<Rightarrow> string \<Rightarrow> error + string" where
  "getChannelIDByName e channelName =
     (if take 1 channelName = ''C'' then Inr channelName
      else
        let name = (if take 1 channelName = ''#'' then drop 1 channelName else channelName)
        in case GetConversationsForUser e of
             None \<Rightarrow> Inl ErrSlack
           | Some channels \<Rightarrow>
               (case find (\<lambda>c. ch_Name c = name) channels of
                  Some c \<Rightarrow> Inr (ch_ID c)
                | None \<Rightarrow> Inl ErrSlack))"

definition postToGratefulChannel ::
    "SlackHandler \<Rightarrow> Env \<Rightarrow> string \<Rightarrow> string \<Rightarrow> string \<Rightarrow> World \<Rightarrow> World" where
  "postToGratefulChannel h e userID originalChannel threadTS w =
     (if gratefulChannel h = [] then w
      else case getChannelIDByName e (gratefulChannel h) of
             Inl _ \<Rightarrow> w
           | Inr gratefulChannelID \<Rightarrow>
               (let threadLink = ''https://slack.com/archives/'' @ originalChannel @ ''/p''
                                   @ remove1 (CHR ''.'') threadTS;
                    message = ''<@'' @ userID @ ''> received <'' @ threadLink @ ''|thanks>!''
                in sendMessage gratefulChannelID message w))"

subsection \<open>Increment markers\<close>

definition msg_self_karma :: string where
  "msg_self_karma = ''Nice try! You can'' @ [CHR 0x27] @ ''t give karma to yourself. That''
      @ [CHR 0x27] @ ''s cheating! '' @ [CHR 0xF0, CHR 0x9F, CHR 0x9A, CHR 0xAB]"

definition msg_bot_karma :: string where
  "msg_bot_karma = ''Aww, trying to give me karma? I'' @ [CHR 0x27] @ ''m touched, but I''
      @ [CHR 0x27] @ ''m already perfect! '' @ [CHR 0xF0, CHR 0x9F, CHR 0x98, CHR 0x8E]"

definition msg_karma_error :: string where
  "msg_karma_error = ''Oo'' @ ''ps! Something went wrong with the karma system. ''
      @ [CHR 0xF0, CHR 0x9F, CHR 0xA4, CHR 0x96, CHR 0xF0, CHR 0x9F, CHR 0x92, CHR 0xA5]"

definition karma_response :: "string \<Rightarrow> (error + Karma) \<Rightarrow> (error + SassyResponse) \<Rightarrow> string" where
  "karma_response targetUserID karma' sassyResponse =
     (case karma' of
        Inr k \<Rightarrow> ''Karma level up! <@'' @ targetUserID @ ''> now has '' @ fmt_d (k_Score k)
                   @ '' karma points! '' @ [CHR 0xF0, CHR 0x9F, CHR 0x93, CHR 0x88, CHR 0xE2, CHR 0x9C, CHR 0xA8]
      | Inl _ \<Rightarrow> ''Karma delivered to <@'' @ targetUserID @ ''>! ''
          @ [CHR 0xF0, CHR 0x9F, CHR 0x92, CHR 0xAB])
     @ (case sassyResponse of
          Inr r \<Rightarrow> [CHR 0x0A] @ s_Response r
        | Inl _ \<Rightarrow> [])"

text \<open>The body of the loop of \<^verbatim>\<open>handleKarmaIncrements\<close>, for one match.\<close>

definition handleKarmaIncrements_match ::
    "SlackHandler \<Rightarrow> Env \<Rightarrow> MessageEvent \<Rightarrow> string list \<Rightarrow> World \<Rightarrow> World" where
  "handleKarmaIncrements_match h e event match w =
     (if length match < 2 then w
      else
        let targetUserID = match ! 1 in
        if targetUserID = ev_User event then
          sendThreadedMessage (ev_Channel event) (ev_TimeStamp event) msg_self_karma w
        else if targetUserID = botID h then
          sendThreadedMessage (ev_Channel event) (ev_TimeStamp event) msg_bot_karma w
        else
          case GetUserInfo e targetUserID of
            None \<Rightarrow> w
          | Some userInfo \<Rightarrow>
              (let user = \<lparr>u_ID = su_ID userInfo, u_Username = su_Name userInfo,
                           u_RealName = su_RealName userInfo, u_Email = su_Email userInfo\<rparr>;
                   d1 = snd (UpsertUser (fault_UpsertUser e) user (db w));
                   reason = ''Karma given in #'' @ getChannelName (ev_Channel event);
                   (err, d2) = IncrementKarma (fault_IncrementKarma e) targetUserID
                                 (su_Name userInfo) (ev_User event) reason (ev_Channel event) d1
               in case err of
                    Some _ \<Rightarrow>
                      sendThreadedMessage (ev_Channel event) (ev_TimeStamp event) msg_karma_error
                        (w\<lparr>db := d2\<rparr>)
                  | None \<Rightarrow>
                      (let karma' = GetKarma (fault_GetKarma e) targetUserID d2;
                           sassyResponse = GetRandomSassyResponse (fault_GetRandomSassyResponse e)
                                             (random e) ''karma_given'' d2;
                           response = karma_response targetUserID karma' sassyResponse
                       in postToGratefulChannel h e targetUserID (ev_Channel event)
                            (ev_TimeStamp event)
                            (sendThreadedMessage (ev_Channel event) (ev_TimeStamp event) response
                               (w\<lparr>db := d2\<rparr>)))))"

text \<open>
  The loop over the matches, left to right; \<open>envs i\<close> is the environment while the
  \<open>i\<close>-th match is handled.
\<close>

fun handleKarmaIncrements_loop ::
    "SlackHandler \<Rightarrow> (nat \<Rightarrow> Env) \<Rightarrow> MessageEvent \<Rightarrow> nat \<Rightarrow> string list list
      \<Rightarrow> World \<Rightarrow> World" where
  "handleKarmaIncrements_loop h envs event i [] w = w"
| "handleKarmaIncrements_loop h envs event i (match # matches) w =
     handleKarmaIncrements_loop h envs event (Suc i) matches
       (handleKarmaIncrements_match h (envs i) event match w)"

definition handleKarmaIncrements ::
    "SlackHandler \<Rightarrow> (nat \<Rightarrow> Env) \<Rightarrow> MessageEvent \<Rightarrow> World \<Rightarrow> World" where
  "handleKarmaIncrements h envs event w =
     handleKarmaIncrements_loop h envs event 0
       (karmaRegex_FindAllStringSubmatch (ev_Text event)) w"

subsection \<open>Gratitude\<close>

text \<open>
  The first loop over the mentions looks for the user who is thanked and stops at the first
  mention, other than the bot and the sender, whose profile lookup succeeds; the second
  takes the first mention other than the bot and the sender.
\<close>

fun thanked_username :: "SlackHandler \<Rightarrow> Env \<Rightarrow> MessageEvent \<Rightarrow> string list list \<Rightarrow> string" where
  "thanked_username h e event [] = []"
| "thanked_username h e event (match # mentions) =
     (if 2 \<le> length match \<and> match ! 1 \<noteq> botID h \<and> match ! 1 \<noteq> ev_User event then
        (case GetUserInfo e (match ! 1) of
           Some mentionedUser \<Rightarrow> su_Name mentionedUser
         | None \<Rightarrow> thanked_username h e event mentions)
      else thanked_username h e event mentions)"

fun grateful_user_id :: "SlackHandler \<Rightarrow> MessageEvent \<Rightarrow> string list list \<Rightarrow> string" where
  "grateful_user_id h event [] = []"
| "grateful_user_id h event (match # mentions) =
     (if 2 \<le> length match \<and> match ! 1 \<noteq> botID h \<and> match ! 1 \<noteq> ev_User event then match ! 1
      else grateful_user_id h event mentions)"

definition thank_you_response :: "string \<Rightarrow> (error + SassyResponse) \<Rightarrow> string" where
  "thank_you_response sender sassyResponse =
     (case sassyResponse of
        Inl _ \<Rightarrow> ''Politeness detected! <@'' @ sender
            @ ''> gets karma for good manners! '' @ [CHR 0xE2, CHR 0x9C, CHR 0xA8]
      | Inr r \<Rightarrow> ''<@'' @ sender @ ''> '' @ s_Response r)"

definition handleThankYou :: "SlackHandler \<Rightarrow> Env \<Rightarrow> MessageEvent \<Rightarrow> World \<Rightarrow> World" where
  "handleThankYou h e event w =
     (if \<not> thankYouRegex_MatchString (ev_Text event) then w
      else
        case GetUserInfo e (ev_User event) of
          None \<Rightarrow> w
        | Some userInfo \<Rightarrow>
            (let user = \<lparr>u_ID = su_ID userInfo, u_Username = su_Name userInfo,
                         u_RealName = su_RealName userInfo, u_Email = su_Email userInfo\<rparr>;
                 d1 = snd (UpsertUser (fault_UpsertUser e) user (db w));
                 mentions = userMentionRegex_FindAllStringSubmatch (ev_Text event);
                 targetUsername = thanked_username h e event mentions;
                 reason = ''Said thank you in #'' @ getChannelName (ev_Channel event);
                 d2 = snd (IncrementKarma (fault_IncrementKarma e) (ev_User event)
                             (su_Name userInfo) (botID h) reason (ev_Channel event) d1);
                 sassyResponse = GetRandomSassyResponse (fault_GetRandomSassyResponse e)
                                   (random e) ''thank_you'' d2;
                 response = thank_you_response (ev_User event) sassyResponse;
                 w3 = sendThreadedMessage (ev_Channel event) (ev_TimeStamp event) response
                        (w\<lparr>db := d2\<rparr>)
             in if targetUsername \<noteq> [] then
                  (let gratefulUserID = grateful_user_id h event mentions
                   in if gratefulUserID \<noteq> [] then
                        postToGratefulChannel h e gratefulUserID (ev_Channel event)
                          (ev_TimeStamp event) w3
                      else w3)
                else w3))"

definition handleMessage ::
    "SlackHandler \<Rightarrow> (nat \<Rightarrow> Env) \<Rightarrow> Env \<Rightarrow> MessageEvent \<Rightarrow> World \<Rightarrow> World" where
  \<comment> \<open>\<open>envs\<close> serves the increment markers, \<open>e\<close> the gratitude handling\<close>
  "handleMessage h envs e event w =
     (if ev_User event = botID h \<or> ev_SubType event \<noteq> [] then w
      else handleThankYou h e event (handleKarmaIncrements h envs event w))"


subsection \<open>The leaderboard\<close>

definition emojis :: "string list" where
  "emojis =
     [[CHR 0xF0, CHR 0x9F, CHR 0xA5, CHR 0x87],
      [CHR 0xF0, CHR 0x9F, CHR 0xA5, CHR 0x88],
      [CHR 0xF0, CHR 0x9F, CHR 0xA5, CHR 0x89],
      ''4'' @ [CHR 0xEF, CHR 0xB8, CHR 0x8F, CHR 0xE2, CHR 0x83, CHR 0xA3],
      ''5'' @ [CHR 0xEF, CHR 0xB8, CHR 0x8F, CHR 0xE2, CHR 0x83, CHR 0xA3],
      ''6'' @ [CHR 0xEF, CHR 0xB8, CHR 0x8F, CHR 0xE2, CHR 0x83, CHR 0xA3],
      ''7'' @ [CHR 0xEF, CHR 0xB8, CHR 0x8F, CHR 0xE2, CHR 0x83, CHR 0xA3],
      ''8'' @ [CHR 0xEF, CHR 0xB8, CHR 0x8F, CHR 0xE2, CHR 0x83, CHR 0xA3],
      ''9'' @ [CHR 0xEF, CHR 0xB8, CHR 0x8F, CHR 0xE2, CHR 0x83, CHR 0xA3],
      [CHR 0xF0, CHR 0x9F, CHR 0x94, CHR 0x9F]]"

definition msg_leaderboard_error :: string where
  "msg_leaderboard_error = ''Error retrieving karma leaderboard! '' @ [CHR 0xF0, CHR 0x9F, CHR 0x98, CHR 0x85]"

definition msg_no_karma :: string where
  "msg_no_karma = ''No karma recorded yet! Be the first to spread some love with @username++ ''
      @ [CHR 0xF0, CHR 0x9F, CHR 0x92, CHR 0xAB]"

definition leaderboard_header :: string where
  "leaderboard_header = [CHR 0xF0, CHR 0x9F, CHR 0x8F, CHR 0x86] @ '' *Karma Leaderboard* ''
      @ [CHR 0xF0, CHR 0x9F, CHR 0x8F, CHR 0x86, CHR 0x0A, CHR 0x0A]"

definition leaderboard_footer :: string where
  "leaderboard_footer = [CHR 0x0A] @ ''Keep spreading those good vibes! '' @ [CHR 0xE2, CHR 0x9C, CHR 0xA8]"

text \<open>
  \<^verbatim>\<open>for i, karma := range karmas { emoji := emojis[i]; response += ... }\<close>. Indexing a
  slice out of range panics in Go: \<open>None\<close> is the panic.
\<close>

fun leaderboard_rows :: "nat \<Rightarrow> Karma list \<Rightarrow> string \<Rightarrow> string option" where
  "leaderboard_rows i [] response = Some response"
| "leaderboard_rows i (k # karmas) response =
     (if i < length emojis then
        leaderboard_rows (Suc i) karmas
          (response @ emojis ! i @ '' <@'' @ k_UserID k @ ''> - '' @ fmt_d (k_Score k)
             @ '' karma'' @ [CHR 0x0A])
      else None)"

definition handleTopKarmaCommand :: "Env \<Rightarrow> SlashCommand \<Rightarrow> World \<Rightarrow> World option" where
  "handleTopKarmaCommand e cmd w =
     (case GetTopKarma (fault_GetTopKarma e) 10 (db w) of
        Inl _ \<Rightarrow> Some (respondToSlashCommand cmd msg_leaderboard_error w)
      | Inr karmas \<Rightarrow>
          if length karmas = 0 then Some (respondToSlashCommand cmd msg_no_karma w)
          else case leaderboard_rows 0 karmas leaderboard_header of
                 None \<Rightarrow> None
               | Some response \<Rightarrow>
                   Some (respondToSlashCommand cmd (response @ leaderboard_footer) w))"

definition sendTopKarma :: "Env \<Rightarrow> string \<Rightarrow> World \<Rightarrow> World option" where
  "sendTopKarma e channel w =
     (case GetTopKarma (fault_GetTopKarma e) 10 (db w) of
        Inl _ \<Rightarrow> Some (sendMessage channel msg_leaderboard_error w)
      | Inr karmas \<Rightarrow>
          if length karmas = 0 then Some (sendMessage channel msg_no_karma w)
          else case leaderboard_rows 0 karmas leaderboard_header of
                 None \<Rightarrow> None
               | Some response \<Rightarrow> Some (sendMessage channel (response @ leaderboard_footer) w))"

subsection \<open>\<^verbatim>\<open>/set-birthday\<close>\<close>

definition msg_birthday_usage :: string where
  "msg_birthday_usage = ''Please provide your birthday in format: MM/DD or MM/DD/YYYY'' @ [CHR 0x0A]
      @ ''Example: `/set-birthday 03/15` or `/set-birthday 03/15/1990`''"

definition msg_birthday_format :: string where
  "msg_birthday_format = ''Invalid format! Use MM/DD or MM/DD/YYYY'' @ [CHR 0x0A]
      @ ''Example: `/set-birthday 03/15` or `/set-birthday 03/15/1990`''"

definition msg_invalid_month :: string where
  "msg_invalid_month = ''Invalid month! Please use MM/DD format.''"

definition msg_invalid_day :: string where
  "msg_invalid_day = ''Invalid day! Please use MM/DD format.''"

definition msg_invalid_year :: string where
  "msg_invalid_year = ''Invalid year! Please use a valid year.''"

definition msg_user_info_error :: string where
  "msg_user_info_error = ''Error getting your user info! '' @ [CHR 0xF0, CHR 0x9F, CHR 0x98, CHR 0x85]"

definition msg_birthday_save_error :: string where
  "msg_birthday_save_error = ''Error saving your birthday! '' @ [CHR 0xF0, CHR 0x9F, CHR 0x98, CHR 0x85]"

definition msg_birthday_saved :: "int \<Rightarrow> int \<Rightarrow> int \<Rightarrow> string" where
  "msg_birthday_saved month day year =
     (let dateStr = (if 0 < year then fmt_02d month @ ''/'' @ fmt_02d day @ ''/'' @ fmt_d year
                     else fmt_02d month @ ''/'' @ fmt_02d day)
      in [CHR 0xF0, CHR 0x9F, CHR 0x8E, CHR 0x82] @ '' Birthday saved! I'' @ [CHR 0x27]
          @ ''ll wish you happy birthday on '' @ dateStr @ ''! ''
          @ [CHR 0xF0, CHR 0x9F, CHR 0x8E, CHR 0x89])"

definition handleSetBirthdayCommand :: "Env \<Rightarrow> SlashCommand \<Rightarrow> World \<Rightarrow> World" where
  "handleSetBirthdayCommand e cmd w =
     (if cmd_Text cmd = [] then respondToSlashCommand cmd msg_birthday_usage w
      else
        let parts = Split_slash (TrimSpace (cmd_Text cmd)) in
        if length parts < 2 \<or> 3 < length parts then
          respondToSlashCommand cmd msg_birthday_format w
        else
          case Atoi (parts ! 0) of
            None \<Rightarrow> respondToSlashCommand cmd msg_invalid_month w
          | Some month \<Rightarrow>
              if month < 1 \<or> 12 < month then respondToSlashCommand cmd msg_invalid_month w
              else
                case Atoi (parts ! 1) of
                  None \<Rightarrow> respondToSlashCommand cmd msg_invalid_day w
                | Some day \<Rightarrow>
                    if day < 1 \<or> 31 < day then respondToSlashCommand cmd msg_invalid_day w
                    else
                      case (if length parts = 3 then
                              (case Atoi (parts ! 2) of
                                 None \<Rightarrow> None
                               | Some y \<Rightarrow> if y < 1900 \<or> now_Year e < y then None else Some y)
                            else Some 0) of
                        None \<Rightarrow> respondToSlashCommand cmd msg_invalid_year w
                      | Some year \<Rightarrow>
                          (case GetUserInfo e (cmd_UserID cmd) of
                             None \<Rightarrow> respondToSlashCommand cmd msg_user_info_error w
                           | Some userInfo \<Rightarrow>
                               (let birthday = \<lparr>b_UserID = cmd_UserID cmd,
                                                 b_Username = su_Name userInfo,
                                                 b_Month = month, b_Day = day, b_Year = year,
                                                 b_Timezone = ''UTC''\<rparr>;
                                    (err, d1) = SetBirthday (fault_SetBirthday e) birthday (db w)
                                in case err of
                                     Some _ \<Rightarrow>
                                       respondToSlashCommand cmd msg_birthday_save_error
                                         (w\<lparr>db := d1\<rparr>)
                                   | None \<Rightarrow>
                                       respondToSlashCommand cmd
                                         (msg_birthday_saved month day year) (w\<lparr>db := d1\<rparr>))))"

subsection \<open>The daily birthday sweep\<close>

definition birthday_message_with_age :: "string \<Rightarrow> int \<Rightarrow> string" where
  "birthday_message_with_age userID age =
     [CHR 0xF0, CHR 0x9F, CHR 0x8E, CHR 0x82] @ '' Happy Birthday <@'' @ userID
       @ ''>! '' @ [CHR 0xF0, CHR 0x9F, CHR 0x8E, CHR 0x89, CHR 0x0A]
           @ ''Another year older, another year wiser! Hope your '' @ fmt_d age
       @ getOrdinalSuffix age @ '' year is absolutely amazing! ''
           @ [CHR 0xF0, CHR 0x9F, CHR 0x8E, CHR 0x8A, CHR 0xE2, CHR 0x9C, CHR 0xA8]"

definition birthday_message_generic :: "string \<Rightarrow> string" where
  "birthday_message_generic userID =
     [CHR 0xF0, CHR 0x9F, CHR 0x8E, CHR 0x82] @ '' Happy Birthday <@'' @ userID
       @ ''>! '' @ [CHR 0xF0, CHR 0x9F, CHR 0x8E, CHR 0x89, CHR 0x0A]
           @ ''Hope your special day is filled with joy, laughter, and maybe some cake! ''
           @ [CHR 0xF0, CHR 0x9F, CHR 0x8E, CHR 0x8A, CHR 0xE2, CHR 0x9C, CHR 0xA8]"

definition birthday_message :: "Env \<Rightarrow> Birthday \<Rightarrow> string" where
  "birthday_message e birthday =
     (if 1970 < b_Year birthday then
        birthday_message_with_age (b_UserID birthday) (now_Year e - b_Year birthday)
      else birthday_message_generic (b_UserID birthday))"

fun SendBirthdayReminder_loop :: "SlackHandler \<Rightarrow> Env \<Rightarrow> Birthday list \<Rightarrow> World \<Rightarrow> World" where
  "SendBirthdayReminder_loop h e [] w = w"
| "SendBirthdayReminder_loop h e (birthday # rest) w =
     SendBirthdayReminder_loop h e rest
       (sendMessage (peopleChannel h) (birthday_message e birthday) w)"

definition SendBirthdayReminder :: "SlackHandler \<Rightarrow> Env \<Rightarrow> World \<Rightarrow> World" where
  "SendBirthdayReminder h e w =
     (case GetTodaysBirthdays (fault_GetTodaysBirthdays e) (now_Month e) (now_Day e) (db w) of
        Inl _ \<Rightarrow> w
      | Inr todays \<Rightarrow> SendBirthdayReminder_loop h e todays w)"

section \<open>Properties\<close>

subsection \<open>What the ledger holds for a user\<close>



text \<open>
  \<open>stored_score\<close> is the score of the user's row, if there is one; \<open>score_of\<close> reads a
  missing row as 0; \<open>audit_sum\<close> adds the changes that the audit log holds for the user.
\<close>

definition stored_score :: "Database \<Rightarrow> string \<Rightarrow> int option" where
  "stored_score d userID = map_option k_Score (find (\<lambda>k. k_UserID k = userID) (karma d))"

definition score_of :: "Database \<Rightarrow> string \<Rightarrow> int" where
  "score_of d userID = (case stored_score d userID of None \<Rightarrow> 0 | Some s \<Rightarrow> s)"

definition audit_sum :: "Database \<Rightarrow> string \<Rightarrow> int" where
  "audit_sum d userID = sum_list (map l_Change (filter (\<lambda>l. l_UserID l = userID) (karma_log d)))"

lemma score_after_bump:
  "map_option k_Score (find (\<lambda>k. k_UserID k = u)
     (map (\<lambda>k. if k_UserID k = t then k\<lparr>k_Score := k_Score k + 1\<rparr> else k) ks)) =
   (if u = t then map_option (\<lambda>s. s + 1) (map_option k_Score (find (\<lambda>k. k_UserID k = u) ks))
    else map_option k_Score (find (\<lambda>k. k_UserID k = u) ks))"
  by (induction ks) auto

lemma find_snoc:
  "find P (xs @ [x]) =
     (case find P xs of Some y \<Rightarrow> Some y | None \<Rightarrow> if P x then Some x else None)"
  by (induction xs) auto

lemma stored_score_upsert_karma:
  "stored_score (upsert_karma t n d) u =
     (if u = t then Some (case stored_score d t of None \<Rightarrow> 1 | Some s \<Rightarrow> s + 1)
      else stored_score d u)"
proof (cases "\<exists>k \<in> set (karma d). k_UserID k = t")
  case True
  then have "find (\<lambda>k. k_UserID k = t) (karma d) \<noteq> None"
    by (auto simp: find_None_iff)
  with True show ?thesis
    by (auto simp: stored_score_def upsert_karma_def score_after_bump)
next
  case False
  then have "find (\<lambda>k. k_UserID k = t) (karma d) = None"
    by (simp add: find_None_iff)
  with False show ?thesis
    by (auto simp: stored_score_def upsert_karma_def find_snoc split: option.splits)
qed

lemma IncrementKarma_NoFault:
  "IncrementKarma NoFault userID username givenBy reason channel d =
     (None, insert_karma_log userID givenBy reason channel (upsert_karma userID username d))"
  by (simp add: IncrementKarma_def Begin_def Exec_def Commit_def)

lemma IncrementKarma_fault:
  "fault \<noteq> NoFault \<Longrightarrow>
     IncrementKarma fault userID username givenBy reason channel d = (Some ErrDriver, d)"
  by (cases fault) (simp_all add: IncrementKarma_def Begin_def Exec_def Rollback_def)


lemma db_sendMessage: "db (sendMessage channel txt w) = db w"
  by (simp add: sendMessage_def)

lemma db_sendThreadedMessage: "db (sendThreadedMessage channel ts txt w) = db w"
  by (simp add: sendThreadedMessage_def)

lemma db_respondToSlashCommand: "db (respondToSlashCommand cmd txt w) = db w"
  by (simp add: respondToSlashCommand_def)

lemma db_postToGratefulChannel: "db (postToGratefulChannel h e userID channel ts w) = db w"
  by (simp add: postToGratefulChannel_def db_sendMessage Let_def split: sum.splits)

lemma UpsertUser_keeps:
  "karma (snd (UpsertUser fault user d)) = karma d"
  "karma_log (snd (UpsertUser fault user d)) = karma_log d"
  "birthdays (snd (UpsertUser fault user d)) = birthdays d"
  by (simp_all add: UpsertUser_def)

lemma stored_score_cong: "karma d' = karma d \<Longrightarrow> stored_score d' u = stored_score d u"
  by (simp add: stored_score_def)

lemma karma_insert_karma_log:
  "karma (insert_karma_log userID givenBy reason channel d) = karma d"
  by (simp add: insert_karma_log_def)

lemma karma_log_upsert_karma: "karma_log (upsert_karma userID username d) = karma_log d"
  by (simp add: upsert_karma_def)

lemma mention_at_shape:
  "mention_at s = Some (ident, r) \<Longrightarrow> ident \<noteq> [] \<and> list_all is_id_char ident"
  by (auto simp: mention_at_def Let_def list_all_iff split: list.splits if_splits
           dest: set_takeWhileD)

lemma karma_at_shape:
  assumes "karma_at s = Some (m, rest)"
  shows "length m = 2 \<and> m ! 1 \<noteq> [] \<and> list_all is_id_char (m ! 1)"
proof -
  from assms obtain ident r where i: "mention_at s = Some (ident, r)"
    by (auto simp: karma_at_def split: option.splits)
  with assms have "length m = 2 \<and> m ! 1 = ident"
    by (auto simp: karma_at_def Let_def split: list.splits if_splits)
  with mention_at_shape [OF i] show ?thesis by simp
qed

lemma karma_match_shape:
  "m \<in> set (karmaRegex_FindAllStringSubmatch s) \<Longrightarrow>
     length m = 2 \<and> m ! 1 \<noteq> [] \<and> list_all is_id_char (m ! 1)"
proof (induction s rule: karmaRegex_FindAllStringSubmatch.induct)
  case 1
  then show ?case by simp
next
  case (2 c cs)
  show ?case
  proof (cases "karma_at (c # cs)")
    case None
    with 2 show ?thesis by simp
  next
    case (Some a)
    obtain m' rest where a: "a = (m', rest)" by (cases a)
    with Some 2 show ?thesis by (auto dest: karma_at_shape)
  qed
qed

subsection \<open>A concrete workspace for the worked examples\<close>


definition example_handler :: SlackHandler where
  "example_handler = \<lparr>botID = ''UBOT'', peopleChannel = ''people'', gratefulChannel = ''thankyou''\<rparr>"

definition example_profile :: "string \<Rightarrow> SlackUser" where
  "example_profile userID =
     \<lparr>su_ID = userID, su_Name = ''user-'' @ userID, su_RealName = ''User '' @ userID,
      su_Email = userID @ ''@example.org''\<rparr>"

definition example_env :: Env where
  "example_env =
     \<lparr>GetUserInfo = (\<lambda>userID. Some (example_profile userID)),
      GetConversationsForUser = Some [\<lparr>ch_ID = ''C777'', ch_Name = ''thankyou''\<rparr>],
      fault_UpsertUser = False, fault_IncrementKarma = NoFault, fault_GetKarma = False,
      fault_GetRandomSassyResponse = False, random = 0, fault_GetTopKarma = False,
      fault_SetBirthday = False, fault_GetTodaysBirthdays = False,
      now_Year = 2026, now_Month = 3, now_Day = 15\<rparr>"

definition failing_lookup_env :: Env where
  \<comment> \<open>the same environment, with every profile lookup failing\<close>
  "failing_lookup_env = example_env\<lparr>GetUserInfo := (\<lambda>userID. None)\<rparr>"

definition empty_world :: World where
  "empty_world = \<lparr>db = createTables, outbox = []\<rparr>"

definition example_event :: MessageEvent where
  "example_event =
     \<lparr>ev_User = ''U999'', ev_Text = ''Great job <@U123>++ today!'', ev_Channel = ''C42'',
      ev_TimeStamp = ''1700000000.000100'', ev_SubType = []\<rparr>"

subsection \<open>C1: an increment marker credits its target\<close>

text \<open>
  C1. Take a message whose text contains an increment marker (a match of \<open>karmaRegex\<close>)
  whose target is neither the sender nor the bot, and let the profile lookup and the ledger
  write succeed. Processing that marker leaves the target with a stored score one higher
  than before, a new row with score 1 if there was none; it changes no other user's score;
  and it appends exactly one audit row, with change +1, the target as user and the sender
  as giver.
\<close>

theorem increment_marker_credits_target:
  assumes "match \<in> set (karmaRegex_FindAllStringSubmatch (ev_Text event))"
    and "match ! 1 \<noteq> ev_User event" and "match ! 1 \<noteq> botID h"
    and "GetUserInfo e (match ! 1) = Some userInfo"
    and "fault_IncrementKarma e = NoFault"
  shows "let w' = handleKarmaIncrements_match h e event match w in
           stored_score (db w') (match ! 1) =
             Some (case stored_score (db w) (match ! 1) of None \<Rightarrow> 1 | Some s \<Rightarrow> s + 1) \<and>
           (\<forall>u. u \<noteq> match ! 1 \<longrightarrow> stored_score (db w') u = stored_score (db w) u) \<and>
           karma_log (db w') = karma_log (db w) @
             [\<lparr>l_UserID = match ! 1, l_GivenBy = ev_User event,
               l_Reason = ''Karma given in #'' @ getChannelName (ev_Channel event),
               l_Change = 1, l_Channel = ev_Channel event\<rparr>]"
proof -
  let ?t = "match ! 1"
  let ?user = "\<lparr>u_ID = su_ID userInfo, u_Username = su_Name userInfo,
                 u_RealName = su_RealName userInfo, u_Email = su_Email userInfo\<rparr>"
  let ?d1 = "snd (UpsertUser (fault_UpsertUser e) ?user (db w))"
  let ?reason = "''Karma given in #'' @ getChannelName (ev_Channel event)"
  let ?d2 = "insert_karma_log ?t (ev_User event) ?reason (ev_Channel event)
               (upsert_karma ?t (su_Name userInfo) ?d1)"
  from karma_match_shape [OF assms(1)] have len: "\<not> length match < 2" by simp
  have "db (handleKarmaIncrements_match h e event match w) = ?d2"
    using len assms(2-5)
    by (simp add: handleKarmaIncrements_match_def Let_def IncrementKarma_NoFault
          db_postToGratefulChannel db_sendThreadedMessage)
  moreover have "stored_score ?d2 u =
      (if u = ?t then Some (case stored_score (db w) ?t of None \<Rightarrow> 1 | Some s \<Rightarrow> s + 1)
       else stored_score (db w) u)" for u
  proof -
    have "stored_score ?d2 u = stored_score (upsert_karma ?t (su_Name userInfo) ?d1) u"
      by (rule stored_score_cong) (rule karma_insert_karma_log)
    moreover have "stored_score ?d1 v = stored_score (db w) v" for v
      by (rule stored_score_cong) (rule UpsertUser_keeps)
    ultimately show ?thesis by (simp add: stored_score_upsert_karma)
  qed
  moreover have "karma_log ?d2 = karma_log (db w) @
      [\<lparr>l_UserID = ?t, l_GivenBy = ev_User event, l_Reason = ?reason, l_Change = 1,
        l_Channel = ev_Channel event\<rparr>]"
    by (simp add: insert_karma_log_def karma_log_upsert_karma UpsertUser_keeps)
  ultimately show ?thesis by (simp add: Let_def)
qed

lemma example_matches:
  "karmaRegex_FindAllStringSubmatch (ev_Text example_event) = [[''<@U123>++'', ''U123'']]"
  by (simp add: example_event_def karma_at_def mention_at_def is_id_char_def is_space_def)

theorem increment_marker_credits_target_witness:
  "[''<@U123>++'', ''U123''] \<in> set (karmaRegex_FindAllStringSubmatch (ev_Text example_event)) \<and>
   stored_score (db empty_world) ''U123'' = None \<and>
   stored_score (db (handleKarmaIncrements_match example_handler example_env example_event
                       [''<@U123>++'', ''U123''] empty_world)) ''U123'' = Some 1 \<and>
   karma_log (db (handleKarmaIncrements_match example_handler example_env example_event
                    [''<@U123>++'', ''U123''] empty_world)) =
     [\<lparr>l_UserID = ''U123'', l_GivenBy = ''U999'', l_Reason = ''Karma given in #C42'',
       l_Change = 1, l_Channel = ''C42''\<rparr>]"
proof -
  let ?m = "[''<@U123>++'', ''U123'']"
  have m: "?m \<in> set (karmaRegex_FindAllStringSubmatch (ev_Text example_event))"
    by (simp add: example_matches)
  have a: "?m ! 1 \<noteq> ev_User example_event" "?m ! 1 \<noteq> botID example_handler"
    by (simp_all add: example_event_def example_handler_def)
  have l: "GetUserInfo example_env (?m ! 1) = Some (example_profile ''U123'')"
    by (simp add: example_env_def)
  have f: "fault_IncrementKarma example_env = NoFault"
    by (simp add: example_env_def)
  have s: "stored_score (db empty_world) ''U123'' = None"
    by (simp add: empty_world_def createTables_def stored_score_def)
  have k: "karma_log (db empty_world) = []"
    by (simp add: empty_world_def createTables_def)
  let ?w = "handleKarmaIncrements_match example_handler example_env example_event ?m empty_world"
  from increment_marker_credits_target [OF m a l f, of empty_world] s k
  have "stored_score (db ?w) ''U123'' = Some 1 \<and>
        karma_log (db ?w) =
          [\<lparr>l_UserID = ''U123'', l_GivenBy = ''U999'', l_Reason = ''Karma given in #C42'',
            l_Change = 1, l_Channel = ''C42''\<rparr>]"
    by (simp add: Let_def example_event_def getChannelName_def)
  with m s show ?thesis by simp
qed

text \<open>
  The same message through \<^verbatim>\<open>handleMessage\<close>, from the empty ledger: the target gets
  its first point, the reply goes to the thread of the message and the notice to the
  grateful channel.
\<close>

lemma example_event_no_thanks: "\<not> thankYouRegex_MatchString (ev_Text example_event)"
  by (simp add: example_event_def thankYouRegex_MatchString_def thank_at_def thank_group_def
        word_boundary_def is_word_def is_space_def ascii_upper_def)

lemma example_message_end_to_end:
  "stored_score (db (handleMessage example_handler (\<lambda>i. example_env) example_env example_event
                       empty_world)) ''U123'' = Some 1 \<and>
   outbox (handleMessage example_handler (\<lambda>i. example_env) example_env example_event empty_world) =
     [\<lparr>p_Channel = ''C42'',
       p_Text = ''Karma level up! <@U123> now has 1 karma points! ''
                  @ [CHR 0xF0, CHR 0x9F, CHR 0x93, CHR 0x88, CHR 0xE2, CHR 0x9C, CHR 0xA8],
       p_ThreadTS = Some ''1700000000.000100''\<rparr>,
      \<lparr>p_Channel = ''C777'',
       p_Text = ''<@U123> received <https://slack.com/archives/C42/p1700000000000100|thanks>!'',
       p_ThreadTS = None\<rparr>]"
proof -
  have k: "handleKarmaIncrements example_handler (\<lambda>i. example_env) example_event empty_world =
      handleKarmaIncrements_match example_handler example_env example_event
        [''<@U123>++'', ''U123''] empty_world"
    by (simp add: handleKarmaIncrements_def example_matches)
  have m: "handleMessage example_handler (\<lambda>i. example_env) example_env example_event empty_world =
      handleKarmaIncrements_match example_handler example_env example_event
        [''<@U123>++'', ''U123''] empty_world"
    using example_event_no_thanks
    by (simp add: handleMessage_def handleThankYou_def k)
       (simp add: example_event_def example_handler_def)
  show ?thesis
    unfolding m
    by (simp add: handleKarmaIncrements_match_def example_event_def example_handler_def
          example_env_def example_profile_def empty_world_def createTables_def Let_def
          UpsertUser_def IncrementKarma_NoFault upsert_karma_def insert_karma_log_def
          GetKarma_def GetRandomSassyResponse_def karma_response_def fmt_d_def
          digits_of.simps sendThreadedMessage_def postToGratefulChannel_def
          getChannelIDByName_def sendMessage_def getChannelName_def stored_score_def)
qed

subsection \<open>C2: a marker for the sender or for the bot is rejected\<close>

definition rejection_reply :: "SlackHandler \<Rightarrow> MessageEvent \<Rightarrow> string \<Rightarrow> Post" where
  "rejection_reply h event targetUserID =
     \<lparr>p_Channel = ev_Channel event,
      p_Text = (if targetUserID = ev_User event then msg_self_karma else msg_bot_karma),
      p_ThreadTS = Some (ev_TimeStamp event)\<rparr>"

text \<open>
  C2. For a match of the increment pattern whose target is the sender or the bot,
  processing the match leaves the whole ledger as it was (no score changes, no audit row
  is appended) and posts one reply in the thread of the message, with the fixed text for a
  self-target or the fixed text for the bot; the loop then goes on with the next match.
\<close>

theorem rejected_marker_changes_nothing:
  assumes "match \<in> set (karmaRegex_FindAllStringSubmatch (ev_Text event))"
    and "match ! 1 = ev_User event \<or> match ! 1 = botID h"
  shows "db (handleKarmaIncrements_match h e event match w) = db w \<and>
         outbox (handleKarmaIncrements_match h e event match w) =
           outbox w @ [rejection_reply h event (match ! 1)] \<and>
         handleKarmaIncrements_loop h envs event i (match # matches) w =
           handleKarmaIncrements_loop h envs event (Suc i) matches
             (w\<lparr>outbox := outbox w @ [rejection_reply h event (match ! 1)]\<rparr>)"
proof -
  from karma_match_shape [OF assms(1)] have len: "\<not> length match < 2" by simp
  have step: "handleKarmaIncrements_match h e' event match w =
      w\<lparr>outbox := outbox w @ [rejection_reply h event (match ! 1)]\<rparr>" for e'
    using len assms(2)
    by (auto simp: handleKarmaIncrements_match_def sendThreadedMessage_def rejection_reply_def)
  show ?thesis by (simp add: step)
qed

definition self_and_bot_event :: MessageEvent where
  "self_and_bot_event =
     \<lparr>ev_User = ''U999'', ev_Text = ''<@U999>++ and <@UBOT> ++'', ev_Channel = ''C42'',
      ev_TimeStamp = ''1700000000.000200'', ev_SubType = []\<rparr>"

lemma self_and_bot_matches:
  "karmaRegex_FindAllStringSubmatch (ev_Text self_and_bot_event) =
     [[''<@U999>++'', ''U999''], [''<@UBOT> ++'', ''UBOT'']]"
  by (simp add: self_and_bot_event_def karma_at_def mention_at_def is_id_char_def is_space_def)

theorem rejected_marker_changes_nothing_witness:
  "[''<@U999>++'', ''U999''] \<in> set (karmaRegex_FindAllStringSubmatch (ev_Text self_and_bot_event)) \<and>
   db (handleKarmaIncrements_match example_handler example_env self_and_bot_event
         [''<@U999>++'', ''U999''] empty_world) = createTables \<and>
   outbox (handleKarmaIncrements_match example_handler example_env self_and_bot_event
         [''<@U999>++'', ''U999''] empty_world) =
     [\<lparr>p_Channel = ''C42'', p_Text = msg_self_karma, p_ThreadTS = Some ''1700000000.000200''\<rparr>] \<and>
   outbox (handleKarmaIncrements example_handler (\<lambda>i. example_env) self_and_bot_event empty_world) =
     [\<lparr>p_Channel = ''C42'', p_Text = msg_self_karma, p_ThreadTS = Some ''1700000000.000200''\<rparr>,
      \<lparr>p_Channel = ''C42'', p_Text = msg_bot_karma, p_ThreadTS = Some ''1700000000.000200''\<rparr>] \<and>
   db (handleKarmaIncrements example_handler (\<lambda>i. example_env) self_and_bot_event empty_world) =
     createTables"
proof -
  let ?m1 = "[''<@U999>++'', ''U999'']" and ?m2 = "[''<@UBOT> ++'', ''UBOT'']"
  let ?r1 = "rejection_reply example_handler self_and_bot_event (?m1 ! 1)"
  let ?r2 = "rejection_reply example_handler self_and_bot_event (?m2 ! 1)"
  let ?w1 = "empty_world\<lparr>outbox := outbox empty_world @ [?r1]\<rparr>"
  have m1: "?m1 \<in> set (karmaRegex_FindAllStringSubmatch (ev_Text self_and_bot_event))"
    and m2: "?m2 \<in> set (karmaRegex_FindAllStringSubmatch (ev_Text self_and_bot_event))"
    by (simp_all add: self_and_bot_matches)
  have t1: "?m1 ! 1 = ev_User self_and_bot_event \<or> ?m1 ! 1 = botID example_handler"
    by (simp add: self_and_bot_event_def)
  have t2: "?m2 ! 1 = ev_User self_and_bot_event \<or> ?m2 ! 1 = botID example_handler"
    by (simp add: example_handler_def)
  note a = rejected_marker_changes_nothing [OF m1 t1, of example_env empty_world "\<lambda>i. example_env" 0 "[?m2]"]
  note b = rejected_marker_changes_nothing [OF m2 t2, of example_env ?w1 "\<lambda>i. example_env" 1 "[]"]
  have r: "?r1 = \<lparr>p_Channel = ''C42'', p_Text = msg_self_karma, p_ThreadTS = Some ''1700000000.000200''\<rparr>"
      "?r2 = \<lparr>p_Channel = ''C42'', p_Text = msg_bot_karma, p_ThreadTS = Some ''1700000000.000200''\<rparr>"
    by (simp_all add: rejection_reply_def self_and_bot_event_def)
  have whole: "handleKarmaIncrements example_handler (\<lambda>i. example_env) self_and_bot_event empty_world
      = ?w1\<lparr>outbox := outbox ?w1 @ [?r2]\<rparr>"
    unfolding handleKarmaIncrements_def self_and_bot_matches
    using a b by simp
  from a have "db (handleKarmaIncrements_match example_handler example_env self_and_bot_event ?m1 empty_world) = createTables"
     and "outbox (handleKarmaIncrements_match example_handler example_env self_and_bot_event ?m1 empty_world) = [?r1]"
    by (simp_all add: empty_world_def)
  with m1 whole r show ?thesis
    by (simp add: empty_world_def)
qed

subsection \<open>C3: the score and the audit log move together\<close>

text \<open>The ledger states that the operations can produce from the empty tables.\<close>

inductive reachable :: "Database \<Rightarrow> bool" where
  start: "reachable createTables"
| increment: "reachable d \<Longrightarrow>
    reachable (snd (IncrementKarma fault userID username givenBy reason channel d))"
| upsert_user: "reachable d \<Longrightarrow> reachable (snd (UpsertUser fault user d))"
| set_birthday: "reachable d \<Longrightarrow> reachable (snd (SetBirthday fault birthday d))"
| seed: "reachable d \<Longrightarrow> reachable (snd (insertDefaultSassyResponses faults d))"

lemma score_of_cong: "karma d' = karma d \<Longrightarrow> score_of d' u = score_of d u"
  by (simp add: score_of_def stored_score_def)

lemma audit_sum_cong: "karma_log d' = karma_log d \<Longrightarrow> audit_sum d' u = audit_sum d u"
  by (simp add: audit_sum_def)

lemma seed_loop_keeps:
  "karma (snd (seed_loop faults i rs d)) = karma d \<and>
   karma_log (snd (seed_loop faults i rs d)) = karma_log d \<and>
   birthdays (snd (seed_loop faults i rs d)) = birthdays d"
  by (induction faults i rs d rule: seed_loop.induct) simp_all

lemma SetBirthday_keeps:
  "karma (snd (SetBirthday fault b d)) = karma d"
  "karma_log (snd (SetBirthday fault b d)) = karma_log d"
  by (simp_all add: SetBirthday_def)

lemma increment_in_step:
  assumes "score_of d u = audit_sum d u"
  shows "score_of (snd (IncrementKarma fault userID username givenBy reason channel d)) u =
         audit_sum (snd (IncrementKarma fault userID username givenBy reason channel d)) u"
proof (cases "fault = NoFault")
  case False
  with assms show ?thesis by (simp add: IncrementKarma_fault)
next
  case True
  let ?d' = "insert_karma_log userID givenBy reason channel (upsert_karma userID username d)"
  have "score_of ?d' u = score_of (upsert_karma userID username d) u"
    by (rule score_of_cong) (rule karma_insert_karma_log)
  also have "\<dots> = (if u = userID then score_of d u + 1 else score_of d u)"
    by (simp add: score_of_def stored_score_upsert_karma split: option.splits)
  finally have l: "score_of ?d' u = (if u = userID then score_of d u + 1 else score_of d u)" .
  have r: "audit_sum ?d' u = (if u = userID then audit_sum d u + 1 else audit_sum d u)"
    by (simp add: audit_sum_def insert_karma_log_def karma_log_upsert_karma)
  from l r assms True show ?thesis
    by (cases "u = userID") (simp_all add: IncrementKarma_NoFault)
qed

lemma reachable_in_step: "reachable d \<Longrightarrow> score_of d u = audit_sum d u"
proof (induction rule: reachable.induct)
  case start
  show ?case by (simp add: createTables_def score_of_def stored_score_def audit_sum_def)
next
  case (increment d fault userID username givenBy reason channel)
  then show ?case by (simp add: increment_in_step)
next
  case (upsert_user d fault user)
  then show ?case
    using score_of_cong [OF UpsertUser_keeps(1)] audit_sum_cong [OF UpsertUser_keeps(2)]
    by simp
next
  case (set_birthday d fault birthday)
  then show ?case
    using score_of_cong [OF SetBirthday_keeps(1)] audit_sum_cong [OF SetBirthday_keeps(2)]
    by simp
next
  case (seed d faults)
  have "karma (snd (insertDefaultSassyResponses faults d)) = karma d"
       "karma_log (snd (insertDefaultSassyResponses faults d)) = karma_log d"
    by (simp_all add: insertDefaultSassyResponses_def seed_loop_keeps)
  with seed show ?case
    using score_of_cong audit_sum_cong by metis
qed

text \<open>
  C3, as amended. \<^verbatim>\<open>IncrementKarma\<close> is the only operation that writes a score or an
  audit row, and it does both inside one transaction that is rolled back when any step
  fails. So a call that fails at any step (at \<^verbatim>\<open>Begin\<close>, at the score upsert, at the audit
  insert or at \<^verbatim>\<open>Commit\<close>) leaves the ledger exactly as it was; every call, failing or
  not, keeps "the user's score equals the sum of the user's audit changes"; and the
  equation holds in every ledger state that the operations can produce from the empty
  tables. The score does not drift from the audit trail on a partial failure.
\<close>

theorem score_and_audit_never_drift:
  "(fault \<noteq> NoFault \<longrightarrow>
      IncrementKarma fault userID username givenBy reason channel d = (Some ErrDriver, d)) \<and>
   (score_of d u = audit_sum d u \<longrightarrow>
      score_of (snd (IncrementKarma fault userID username givenBy reason channel d)) u =
      audit_sum (snd (IncrementKarma fault userID username givenBy reason channel d)) u) \<and>
   (reachable d \<longrightarrow> score_of d u = audit_sum d u)"
  by (simp add: IncrementKarma_fault increment_in_step reachable_in_step)

definition one_point_ledger :: Database where
  "one_point_ledger =
     snd (IncrementKarma NoFault ''U123'' ''alice'' ''U999'' ''Karma given in #C42'' ''C42''
            createTables)"

lemma one_point_ledger_eq:
  "one_point_ledger =
     \<lparr>users = [], karma = [\<lparr>k_UserID = ''U123'', k_Username = ''alice'', k_Score = 1\<rparr>],
      karma_log = [\<lparr>l_UserID = ''U123'', l_GivenBy = ''U999'',
                    l_Reason = ''Karma given in #C42'', l_Change = 1, l_Channel = ''C42''\<rparr>],
      birthdays = [], sassy_responses = []\<rparr>"
  by (simp add: one_point_ledger_def IncrementKarma_NoFault upsert_karma_def
        insert_karma_log_def createTables_def)

theorem score_and_audit_never_drift_witness:
  "LogFails \<noteq> NoFault \<and> reachable one_point_ledger \<and>
   IncrementKarma LogFails ''U123'' ''alice'' ''U999'' ''again'' ''C42'' one_point_ledger =
     (Some ErrDriver, one_point_ledger) \<and>
   score_of one_point_ledger ''U123'' = 1 \<and> audit_sum one_point_ledger ''U123'' = 1"
proof -
  have r: "reachable one_point_ledger"
    unfolding one_point_ledger_def by (rule reachable.increment) (rule reachable.start)
  have s: "score_of one_point_ledger ''U123'' = 1"
    by (simp add: one_point_ledger_eq score_of_def stored_score_def)
  from score_and_audit_never_drift
         [of LogFails "''U123''" "''alice''" "''U999''" "''again''" "''C42''" one_point_ledger "''U123''"]
       r s
  show ?thesis by simp
qed

text \<open>
  The claim as stated says that a partial failure may leave the score and the audit log
  apart. At the ledger with one point for \<open>U123\<close>, a call that fails after the score
  upsert has run (at the audit insert, or at the commit) returns the ledger unchanged, and
  no call from a reachable ledger separates the two.
\<close>

theorem partial_failure_drift_counterexample:
  "IncrementKarma UpsertFails ''U123'' ''alice'' ''U999'' ''again'' ''C42'' one_point_ledger =
     (Some ErrDriver, one_point_ledger) \<and>
   IncrementKarma LogFails ''U123'' ''alice'' ''U999'' ''again'' ''C42'' one_point_ledger =
     (Some ErrDriver, one_point_ledger) \<and>
   IncrementKarma CommitFails ''U123'' ''alice'' ''U999'' ''again'' ''C42'' one_point_ledger =
     (Some ErrDriver, one_point_ledger) \<and>
   score_of one_point_ledger ''U123'' = audit_sum one_point_ledger ''U123'' \<and>
   \<not> (\<exists>d fault userID username givenBy reason channel u.
        reachable d \<and>
        score_of (snd (IncrementKarma fault userID username givenBy reason channel d)) u \<noteq>
        audit_sum (snd (IncrementKarma fault userID username givenBy reason channel d)) u)"
proof -
  have "score_of one_point_ledger ''U123'' = audit_sum one_point_ledger ''U123''"
    by (simp add: one_point_ledger_eq score_of_def stored_score_def audit_sum_def)
  moreover have "\<not> (\<exists>d fault userID username givenBy reason channel u.
        reachable d \<and>
        score_of (snd (IncrementKarma fault userID username givenBy reason channel d)) u \<noteq>
        audit_sum (snd (IncrementKarma fault userID username givenBy reason channel d)) u)"
    using increment_in_step reachable_in_step by blast
  ultimately show ?thesis by (simp add: IncrementKarma_fault)
qed

subsection \<open>C4: the gratitude recognizer\<close>

text \<open>
  \<open>same_ci w p\<close>: the text \<open>w\<close> is the lower-case word \<open>p\<close> up to the case of its ASCII
  letters. \<open>gratitude_word w\<close>: \<open>w\<close> is, up to case, one of \<^verbatim>\<open>thanks\<close>, \<^verbatim>\<open>thx\<close>,
  \<^verbatim>\<open>ty\<close>, or \<^verbatim>\<open>thank\<close> followed by any run of white space and \<^verbatim>\<open>you\<close>
  or \<^verbatim>\<open>u\<close>.
  \<open>standalone pre post\<close>: a word put between \<open>pre\<close> and \<open>post\<close> stands alone, that is,
  \<open>pre\<close> does not end and \<open>post\<close> does not begin with a word character.
\<close>

definition ci_eq :: "char \<Rightarrow> char \<Rightarrow> bool" where
  "ci_eq c p \<longleftrightarrow> c = p \<or> c = ascii_upper p"

definition same_ci :: "string \<Rightarrow> string \<Rightarrow> bool" where
  "same_ci w p \<longleftrightarrow> list_all2 ci_eq w p"

definition standalone :: "string \<Rightarrow> string \<Rightarrow> bool" where
  "standalone pre post \<longleftrightarrow>
     (case rev pre of [] \<Rightarrow> True | c # _ \<Rightarrow> \<not> is_word c) \<and>
     (case post of [] \<Rightarrow> True | c # _ \<Rightarrow> \<not> is_word c)"

definition gratitude_word :: "string \<Rightarrow> bool" where
  "gratitude_word w \<longleftrightarrow>
     same_ci w ''thanks'' \<or> same_ci w ''thx'' \<or> same_ci w ''ty'' \<or>
     same_ci (take 5 w) ''thank'' \<and>
       (let b = dropWhile is_space (drop 5 w) in same_ci b ''you'' \<or> same_ci b ''u'')"

text \<open>
  The case folding of the pattern reaches beyond ASCII: \<open>fold_runes p\<close> lists the
  encodings of the runes that the pattern letter \<open>p\<close> stands for under \<^verbatim>\<open>(?i)\<close>,
  \<open>same_fold w p\<close> says that the text \<open>w\<close> is the word \<open>p\<close> written with such runes,
  and \<open>folded_gratitude_word w\<close> that \<open>w\<close> is a gratitude word written with such runes:
  \<^verbatim>\<open>thanks\<close>, \<^verbatim>\<open>thx\<close>, \<^verbatim>\<open>ty\<close>, or \<^verbatim>\<open>thank\<close>, a run of white space and
  \<^verbatim>\<open>you\<close> or \<^verbatim>\<open>u\<close>. \<open>at_boundary a b\<close>: between the texts \<open>a\<close> and \<open>b\<close> lies a
  word boundary, that is, exactly one of the last character of \<open>a\<close> and the first character
  of \<open>b\<close> is an ASCII word character, a missing character counting as none.
\<close>

definition fold_runes :: "char \<Rightarrow> string list" where
  "fold_runes p =
     [[p], [ascii_upper p]]
     @ (if p = CHR ''k'' then [[CHR 0xE2, CHR 0x84, CHR 0xAA]] else [])
     @ (if p = CHR ''s'' then [[CHR 0xC5, CHR 0xBF]] else [])"

fun same_fold :: "string \<Rightarrow> string \<Rightarrow> bool" where
  "same_fold w [] \<longleftrightarrow> w = []"
| "same_fold w (p # ps) \<longleftrightarrow>
     list_ex (\<lambda>r. take (length r) w = r \<and> same_fold (drop (length r) w) ps) (fold_runes p)"

definition folded_gratitude_word :: "string \<Rightarrow> bool" where
  "folded_gratitude_word w \<longleftrightarrow>
     same_fold w ''thanks'' \<or> same_fold w ''thx'' \<or> same_fold w ''ty'' \<or>
     list_ex (\<lambda>n. same_fold (take n w) ''thank'' \<and>
                   (let b = dropWhile is_space (drop n w)
                    in same_fold b ''you'' \<or> same_fold b ''u''))
       [0 ..< Suc (length w)]"

definition at_boundary :: "string \<Rightarrow> string \<Rightarrow> bool" where
  "at_boundary a b \<longleftrightarrow> (a \<noteq> [] \<and> is_word (last a)) \<noteq> (b \<noteq> [] \<and> is_word (hd b))"

definition pattern_letter :: "char \<Rightarrow> bool" where
  "pattern_letter p \<longleftrightarrow> p \<in> set ''thankyousx''"

lemma lit_ci_same:
  "list_all2 ci_eq w p \<Longrightarrow> lit_ci lw p (w @ r) = Some (if p = [] then lw else True, r)"
proof (induction w p arbitrary: lw rule: list_all2_induct)
  case Nil
  then show ?case by simp
next
  case (Cons c w p ps)
  then show ?case by (cases ps) (auto simp: ci_eq_def)
qed

lemma thank_scan_append:
  "thank_at (case rev pre of [] \<Rightarrow> lw | c # _ \<Rightarrow> is_word c) s \<Longrightarrow> thank_scan lw (pre @ s)"
proof (induction pre arbitrary: lw)
  case Nil
  then show ?case by (cases s) simp_all
next
  case (Cons p ps)
  have "thank_scan (is_word p) (ps @ s)"
  proof (rule Cons.IH)
    show "thank_at (case rev ps of [] \<Rightarrow> is_word p | c # _ \<Rightarrow> is_word c) s"
      using Cons.prems by (cases "rev ps") simp_all
  qed
  then show ?case by simp
qed

lemma same_ci_head_word:
  assumes "same_ci w p" and "p \<noteq> []" and "is_word (hd p)" and "is_word (ascii_upper (hd p))"
  shows "w \<noteq> [] \<and> is_word (hd w)"
  using assms by (cases w; cases p) (auto simp: same_ci_def ci_eq_def)

lemma same_ci_head_nonspace:
  assumes "same_ci w p" and "p \<noteq> []" and "\<not> is_space (hd p)" and "\<not> is_space (ascii_upper (hd p))"
  shows "dropWhile is_space (w @ r) = w @ r"
  using assms by (cases w; cases p) (auto simp: same_ci_def ci_eq_def)

lemma thank_group_word:
  assumes "gratitude_word w"
  shows "(True, post) \<in> set (thank_group (w @ post)) \<and> is_word (hd (w @ post)) \<and> w \<noteq> []"
proof -
  let ?a = "take 5 w" and ?sp = "takeWhile is_space (drop 5 w)"
    and ?b = "dropWhile is_space (drop 5 w)"
  have split: "w = ?a @ ?sp @ ?b" by simp
  have spaces: "list_all is_space ?sp"
    by (auto simp: list_all_iff dest: set_takeWhileD)
  consider (a) "same_ci w ''thanks''" | (b) "same_ci w ''thx''" | (c) "same_ci w ''ty''"
    | (d) a sp b where "w = a @ sp @ b" "same_ci a ''thank''" "list_all is_space sp"
        "same_ci b ''you'' \<or> same_ci b ''u''"
    using assms split spaces unfolding gratitude_word_def Let_def by blast
  then show ?thesis
  proof cases
    case a
    from same_ci_head_word [OF a] have "w \<noteq> [] \<and> is_word (hd w)"
      by (simp add: is_word_def ascii_upper_def)
    moreover have "lit_ci False ''thanks'' (w @ post) = Some (True, post)"
      using lit_ci_same [OF a [unfolded same_ci_def], of False post] by simp
    ultimately show ?thesis by (simp add: thank_group_def)
  next
    case b
    from same_ci_head_word [OF b] have "w \<noteq> [] \<and> is_word (hd w)"
      by (simp add: is_word_def ascii_upper_def)
    moreover have "lit_ci False ''thx'' (w @ post) = Some (True, post)"
      using lit_ci_same [OF b [unfolded same_ci_def], of False post] by simp
    ultimately show ?thesis by (simp add: thank_group_def)
  next
    case c
    from same_ci_head_word [OF c] have "w \<noteq> [] \<and> is_word (hd w)"
      by (simp add: is_word_def ascii_upper_def)
    moreover have "lit_ci False ''ty'' (w @ post) = Some (True, post)"
      using lit_ci_same [OF c [unfolded same_ci_def], of False post] by simp
    ultimately show ?thesis by (simp add: thank_group_def)
  next
    case d
    from same_ci_head_word [OF d(2)] have a: "a \<noteq> [] \<and> is_word (hd a)"
      by (simp add: is_word_def ascii_upper_def)
    have t: "lit_ci False ''thank'' (w @ post) = Some (True, sp @ b @ post)"
      using lit_ci_same [OF d(2) [unfolded same_ci_def], of False "sp @ b @ post"]
      by (simp add: d(1))
    have dw: "dropWhile is_space (sp @ b @ post) = b @ post"
    proof -
      have "dropWhile is_space (b @ post) = b @ post"
        using d(4)
      proof
        assume "same_ci b ''you''"
        from same_ci_head_nonspace [OF this] show ?thesis
          by (simp add: is_space_def ascii_upper_def)
      next
        assume "same_ci b ''u''"
        from same_ci_head_nonspace [OF this] show ?thesis
          by (simp add: is_space_def ascii_upper_def)
      qed
      with d(3) show ?thesis by (simp add: dropWhile_append list_all_iff)
    qed
    have "lit_ci True ''you'' (b @ post) = Some (True, post) \<or> lit_ci True ''u'' (b @ post) = Some (True, post)"
      using d(4) lit_ci_same [of b "''you''" True post] lit_ci_same [of b "''u''" True post]
      unfolding same_ci_def by auto
    with t dw have "(True, post) \<in> set (thank_group (w @ post))"
      by (auto simp: thank_group_def Let_def)
    with a d(1) show ?thesis by simp
  qed
qed

lemma standalone_word_matches:
  assumes "gratitude_word w" and "standalone pre post"
  shows "thankYouRegex_MatchString (pre @ w @ post)"
proof -
  from thank_group_word [OF assms(1), of post]
  have g: "(True, post) \<in> set (thank_group (w @ post))" and h: "is_word (hd w)" "w \<noteq> []"
    by (auto simp: hd_append)
  from assms(2) have post: "word_boundary True post"
    by (cases post) (simp_all add: standalone_def word_boundary_def)
  from h have "word_boundary False (w @ post)"
    by (cases w) (simp_all add: word_boundary_def)
  with g post have "thank_at False (w @ post)"
    unfolding thank_at_def list_ex_iff by fastforce
  moreover from assms(2) have "(case rev pre of [] \<Rightarrow> False | c # _ \<Rightarrow> is_word c) = False"
    by (cases "rev pre") (simp_all add: standalone_def)
  ultimately show ?thesis
    unfolding thankYouRegex_MatchString_def using thank_scan_append [where pre = pre and lw = False and s = "w @ post"] by simp
qed

lemma take_two: "take 2 cs = [a, b] \<Longrightarrow> cs = a # b # drop 2 cs"
  by (metis append_take_drop_id append_Cons append_Nil)

lemma take_one: "take (Suc 0) cs = [a] \<Longrightarrow> cs = a # drop (Suc 0) cs"
  by (metis append_take_drop_id append_Cons append_Nil)

lemma eat_fold_iff:
  assumes "pattern_letter p"
  shows "eat_fold p s = Some (w, r) \<longleftrightarrow>
         (\<exists>ru \<in> set (fold_runes p). s = ru @ r \<and> w = is_word (last ru))"
proof (cases s)
  case Nil
  then show ?thesis by (auto simp: fold_runes_def)
next
  case (Cons c cs)
  from assms consider "p = CHR ''t''" | "p = CHR ''h''" | "p = CHR ''a''" | "p = CHR ''n''"
    | "p = CHR ''k''" | "p = CHR ''y''" | "p = CHR ''o''" | "p = CHR ''u''" | "p = CHR ''s''"
    | "p = CHR ''x''"
    unfolding pattern_letter_def by auto
  then show ?thesis
  proof cases
    case 5
    then show ?thesis using Cons
      by (auto simp: fold_runes_def is_word_def ascii_upper_def dest: take_two)
  next
    case 9
    then show ?thesis using Cons
      by (auto simp: fold_runes_def is_word_def ascii_upper_def dest: take_one)
  qed (use Cons in \<open>auto simp: fold_runes_def is_word_def ascii_upper_def\<close>)
qed


lemma fold_runes_nonempty: "ru \<in> set (fold_runes p) \<Longrightarrow> ru \<noteq> []"
  by (auto simp: fold_runes_def split: if_splits)

lemma same_fold_Cons:
  "same_fold a (p # ps) \<longleftrightarrow> (\<exists>ru a'. ru \<in> set (fold_runes p) \<and> a = ru @ a' \<and> same_fold a' ps)"
proof
  assume "same_fold a (p # ps)"
  then obtain ru where "ru \<in> set (fold_runes p)" "take (length ru) a = ru"
      "same_fold (drop (length ru) a) ps"
    by (auto simp: list_ex_iff)
  moreover have "a = take (length ru) a @ drop (length ru) a" by simp
  ultimately show "\<exists>ru a'. ru \<in> set (fold_runes p) \<and> a = ru @ a' \<and> same_fold a' ps"
    by metis
next
  assume "\<exists>ru a'. ru \<in> set (fold_runes p) \<and> a = ru @ a' \<and> same_fold a' ps"
  then obtain ru a' where "ru \<in> set (fold_runes p)" "a = ru @ a'" "same_fold a' ps"
    by blast
  then have "\<exists>r \<in> set (fold_runes p). take (length r) a = r \<and> same_fold (drop (length r) a) ps"
    by (intro bexI [of _ ru]) simp_all
  then show "same_fold a (p # ps)"
    by (simp add: list_ex_iff)
qed

lemma same_fold_nonempty: "same_fold a p \<Longrightarrow> p \<noteq> [] \<Longrightarrow> a \<noteq> []"
  by (cases p) (auto simp: same_fold_Cons dest: fold_runes_nonempty simp del: same_fold.simps)

lemma lit_ci_iff:
  assumes "list_all pattern_letter p"
  shows "lit_ci lw p s = Some (w, r) \<longleftrightarrow>
         (\<exists>a. s = a @ r \<and> same_fold a p \<and> w = (if p = [] then lw else is_word (last a)))"
  using assms
proof (induction p arbitrary: lw s)
  case Nil
  then show ?case by auto
next
  case (Cons p ps)
  from Cons.prems have pl: "pattern_letter p" and ps: "list_all pattern_letter ps"
    by simp_all
  note IH = Cons.IH [OF ps]
  show ?case
  proof
    assume l: "lit_ci lw (p # ps) s = Some (w, r)"
    then obtain w1 r1 where e: "eat_fold p s = Some (w1, r1)" and l1: "lit_ci w1 ps r1 = Some (w, r)"
      by (auto split: option.splits)
    from e obtain ru where ru: "ru \<in> set (fold_runes p)" "s = ru @ r1" "w1 = is_word (last ru)"
      unfolding eat_fold_iff [OF pl] by blast
    from l1 obtain a' where a': "r1 = a' @ r" "same_fold a' ps"
        "w = (if ps = [] then w1 else is_word (last a'))"
      unfolding IH by blast
    have "s = (ru @ a') @ r" using ru a' by simp
    moreover have "same_fold (ru @ a') (p # ps)"
      unfolding same_fold_Cons using ru a' by blast
    moreover have "w = is_word (last (ru @ a'))"
    proof (cases "ps = []")
      case True
      with a' have "a' = []" by simp
      with a' ru True show ?thesis by simp
    next
      case False
      with a' have "a' \<noteq> []" by (auto dest: same_fold_nonempty)
      with a' False show ?thesis by simp
    qed
    ultimately show "\<exists>a. s = a @ r \<and> same_fold a (p # ps) \<and>
        w = (if p # ps = [] then lw else is_word (last a))"
      by (intro exI [of _ "ru @ a'"]) simp
  next
    assume "\<exists>a. s = a @ r \<and> same_fold a (p # ps) \<and>
        w = (if p # ps = [] then lw else is_word (last a))"
    then obtain a where a: "s = a @ r" "same_fold a (p # ps)" "w = is_word (last a)"
      by auto
    from a(2) obtain ru a' where ru: "ru \<in> set (fold_runes p)" "a = ru @ a'" "same_fold a' ps"
      unfolding same_fold_Cons by blast
    have e: "eat_fold p s = Some (is_word (last ru), a' @ r)"
      unfolding eat_fold_iff [OF pl] using ru a by auto
    have w: "w = (if ps = [] then is_word (last ru) else is_word (last a'))"
    proof (cases "ps = []")
      case True
      with ru have "a' = []" by simp
      with a ru True show ?thesis by simp
    next
      case False
      with ru have "a' \<noteq> []" by (auto dest: same_fold_nonempty)
      with a ru False show ?thesis by simp
    qed
    have "lit_ci (is_word (last ru)) ps (a' @ r) = Some (w, r)"
      unfolding IH using ru w by blast
    with e show "lit_ci lw (p # ps) s = Some (w, r)"
      by simp
  qed
qed


lemma same_fold_head:
  assumes "same_fold b (p # ps)" and "pattern_letter p"
  shows "b \<noteq> [] \<and> \<not> is_space (hd b)"
proof -
  from assms(1) obtain ru b' where ru: "ru \<in> set (fold_runes p)" "b = ru @ b'"
    unfolding same_fold_Cons by blast
  from ru(1) assms(2) have "ru \<noteq> [] \<and> \<not> is_space (hd ru)"
    by (auto simp: fold_runes_def pattern_letter_def is_space_def ascii_upper_def split: if_splits)
  with ru(2) show ?thesis by simp
qed

lemma same_fold_head_t:
  assumes "same_fold b (CHR ''t'' # ps)"
  shows "b \<noteq> [] \<and> is_word (hd b)"
proof -
  from assms obtain ru b' where ru: "ru \<in> set (fold_runes CHR ''t'')" "b = ru @ b'"
    unfolding same_fold_Cons by blast
  from ru(1) have "ru \<noteq> [] \<and> is_word (hd ru)"
    by (auto simp: fold_runes_def is_word_def ascii_upper_def)
  with ru(2) show ?thesis by simp
qed

lemma letters:
  "list_all pattern_letter ''thank''" "list_all pattern_letter ''thanks''"
  "list_all pattern_letter ''thx''" "list_all pattern_letter ''ty''"
  "list_all pattern_letter ''you''" "list_all pattern_letter ''u''"
  by (simp_all add: pattern_letter_def)

lemma dropWhile_spaces:
  assumes "list_all is_space sp" and "b \<noteq> [] \<and> \<not> is_space (hd b)"
  shows "dropWhile is_space (sp @ b @ r) = b @ r"
proof -
  from assms(2) have "dropWhile is_space (b @ r) = b @ r"
    by (cases b) simp_all
  with assms(1) show ?thesis
    by (simp add: dropWhile_append list_all_iff)
qed

lemma you_or_u_head:
  assumes "same_fold b ''you'' \<or> same_fold b ''u''"
  shows "b \<noteq> [] \<and> \<not> is_space (hd b)"
  using assms same_fold_head [of b "CHR ''y''" "''ou''"] same_fold_head [of b "CHR ''u''" "[]"]
  by (auto simp: pattern_letter_def simp del: same_fold.simps)

lemma folded_gratitude_word_iff:
  "folded_gratitude_word w \<longleftrightarrow>
     same_fold w ''thanks'' \<or> same_fold w ''thx'' \<or> same_fold w ''ty'' \<or>
     (\<exists>a sp b. w = a @ sp @ b \<and> same_fold a ''thank'' \<and> list_all is_space sp \<and>
        (same_fold b ''you'' \<or> same_fold b ''u''))"
proof -
  have "list_ex (\<lambda>n. same_fold (take n w) ''thank'' \<and>
                   (let b = dropWhile is_space (drop n w)
                    in same_fold b ''you'' \<or> same_fold b ''u''))
       [0 ..< Suc (length w)] \<longleftrightarrow>
     (\<exists>a sp b. w = a @ sp @ b \<and> same_fold a ''thank'' \<and> list_all is_space sp \<and>
        (same_fold b ''you'' \<or> same_fold b ''u''))" (is "?L \<longleftrightarrow> ?R")
  proof
    assume ?L
    then obtain n where n: "same_fold (take n w) ''thank''"
        "same_fold (dropWhile is_space (drop n w)) ''you'' \<or>
         same_fold (dropWhile is_space (drop n w)) ''u''"
      unfolding list_ex_iff Let_def by blast
    have "w = take n w @ takeWhile is_space (drop n w) @ dropWhile is_space (drop n w)"
      by simp
    moreover have "list_all is_space (takeWhile is_space (drop n w))"
      by (auto simp: list_all_iff dest: set_takeWhileD)
    ultimately show ?R using n by blast
  next
    assume ?R
    then obtain a sp b where w: "w = a @ sp @ b" and a: "same_fold a ''thank''"
      and sp: "list_all is_space sp" and b: "same_fold b ''you'' \<or> same_fold b ''u''"
      by blast
    from dropWhile_spaces [OF sp you_or_u_head [OF b], of "[]"]
    have "dropWhile is_space (sp @ b) = b" by simp
    with w a b have "same_fold (take (length a) w) ''thank'' \<and>
        (let b = dropWhile is_space (drop (length a) w)
         in same_fold b ''you'' \<or> same_fold b ''u'')"
      by (simp del: same_fold.simps)
    moreover from w have "length a \<in> set [0 ..< Suc (length w)]" by simp
    ultimately show ?L unfolding list_ex_iff by blast
  qed
  then show ?thesis unfolding folded_gratitude_word_def by blast
qed

lemma option_list_member:
  "x \<in> set (case opt of None \<Rightarrow> [] | Some y \<Rightarrow> [y]) \<longleftrightarrow> opt = Some x"
  by (cases opt) auto

lemma thank_you_alternative:
  "(w, r) \<in> set (case lit_ci False ''thank'' s of
                   None \<Rightarrow> []
                 | Some (w1, r1) \<Rightarrow>
                     (let r' = dropWhile is_space r1
                      in (case lit_ci w1 ''you'' r' of None \<Rightarrow> [] | Some x \<Rightarrow> [x])
                       @ (case lit_ci w1 ''u'' r' of None \<Rightarrow> [] | Some x \<Rightarrow> [x]))) \<longleftrightarrow>
   (\<exists>a sp b. s = a @ sp @ b @ r \<and> same_fold a ''thank'' \<and> list_all is_space sp \<and>
      (same_fold b ''you'' \<or> same_fold b ''u'') \<and> w = is_word (last b))"
  (is "?L \<longleftrightarrow> ?R")
proof
  assume ?L
  then obtain w1 r1 where t: "lit_ci False ''thank'' s = Some (w1, r1)"
    by (cases "lit_ci False ''thank'' s") (auto simp del: lit_ci.simps)
  with \<open>?L\<close> have y: "lit_ci w1 ''you'' (dropWhile is_space r1) = Some (w, r) \<or>
            lit_ci w1 ''u'' (dropWhile is_space r1) = Some (w, r)"
    by (auto simp: Let_def option_list_member simp del: lit_ci.simps)
  from t obtain a where a: "s = a @ r1" "same_fold a ''thank''"
    unfolding lit_ci_iff [OF letters(1)] by blast
  from y obtain b where b: "dropWhile is_space r1 = b @ r"
      "same_fold b ''you'' \<or> same_fold b ''u''" "w = is_word (last b)"
    unfolding lit_ci_iff [OF letters(5)] lit_ci_iff [OF letters(6)] by auto
  have "r1 = takeWhile is_space r1 @ b @ r"
    using b(1) by (metis takeWhile_dropWhile_id)
  with a have "s = a @ takeWhile is_space r1 @ b @ r" by simp
  moreover have "list_all is_space (takeWhile is_space r1)"
    by (auto simp: list_all_iff dest: set_takeWhileD)
  ultimately show ?R using a b by blast
next
  assume ?R
  then obtain a sp b where s: "s = a @ sp @ b @ r" and a: "same_fold a ''thank''"
    and sp: "list_all is_space sp" and b: "same_fold b ''you'' \<or> same_fold b ''u''"
    and w: "w = is_word (last b)"
    by blast
  have t: "lit_ci False ''thank'' s = Some (is_word (last a), sp @ b @ r)"
    unfolding lit_ci_iff [OF letters(1)] using s a by auto
  have d: "dropWhile is_space (sp @ b @ r) = b @ r"
    by (rule dropWhile_spaces [OF sp you_or_u_head [OF b]])
  have "lit_ci (is_word (last a)) ''you'' (b @ r) = Some (w, r) \<or>
        lit_ci (is_word (last a)) ''u'' (b @ r) = Some (w, r)"
    unfolding lit_ci_iff [OF letters(5)] lit_ci_iff [OF letters(6)] using b w by auto
  with t d show ?L
    by (auto simp: Let_def option_list_member simp del: lit_ci.simps)
qed

lemma thank_group_iff:
  "(w, r) \<in> set (thank_group s) \<longleftrightarrow>
   (\<exists>a. s = a @ r \<and> folded_gratitude_word a \<and> w = is_word (last a))"
  (is "?L \<longleftrightarrow> ?R")
proof -
  have simple: "lit_ci False p s = Some (w, r) \<longleftrightarrow>
      (\<exists>a. s = a @ r \<and> same_fold a p \<and> w = is_word (last a))"
    if "list_all pattern_letter p" "p \<noteq> []" for p
    unfolding lit_ci_iff [OF that(1)] using that(2) by simp
  have s2: "''thanks'' \<noteq> []" and s3: "''thx'' \<noteq> []" and s4: "''ty'' \<noteq> []"
    by simp_all
  have you: "(\<exists>a sp b. s = a @ sp @ b @ r \<and> same_fold a ''thank'' \<and> list_all is_space sp \<and>
      (same_fold b ''you'' \<or> same_fold b ''u'') \<and> w = is_word (last b)) \<longleftrightarrow>
    (\<exists>c. s = c @ r \<and>
       (\<exists>a sp b. c = a @ sp @ b \<and> same_fold a ''thank'' \<and> list_all is_space sp \<and>
          (same_fold b ''you'' \<or> same_fold b ''u'')) \<and> w = is_word (last c))"
    (is "?A \<longleftrightarrow> ?B")
  proof
    assume ?A
    then obtain a sp b where x: "s = a @ sp @ b @ r" "same_fold a ''thank''" "list_all is_space sp"
        "same_fold b ''you'' \<or> same_fold b ''u''" "w = is_word (last b)"
      by blast
    from you_or_u_head [OF x(4)] have "last (a @ sp @ b) = last b" by simp
    with x show ?B by (intro exI [of _ "a @ sp @ b"]) auto
  next
    assume ?B
    then obtain c a sp b where x: "s = c @ r" "c = a @ sp @ b" "same_fold a ''thank''"
        "list_all is_space sp" "same_fold b ''you'' \<or> same_fold b ''u''" "w = is_word (last c)"
      by blast
    from you_or_u_head [OF x(5)] x(2) have "last c = last b" by simp
    with x show ?A by auto
  qed
  have "?L \<longleftrightarrow>
     (\<exists>a sp b. s = a @ sp @ b @ r \<and> same_fold a ''thank'' \<and> list_all is_space sp \<and>
        (same_fold b ''you'' \<or> same_fold b ''u'') \<and> w = is_word (last b)) \<or>
     lit_ci False ''thanks'' s = Some (w, r) \<or> lit_ci False ''thx'' s = Some (w, r) \<or>
     lit_ci False ''ty'' s = Some (w, r)"
    unfolding thank_group_def set_append Un_iff thank_you_alternative option_list_member
    by blast
  also have "\<dots> \<longleftrightarrow> ?R"
    unfolding you simple [OF letters(2) s2] simple [OF letters(3) s3] simple [OF letters(4) s4]
      folded_gratitude_word_iff
    by blast
  finally show ?thesis .
qed


lemma folded_gratitude_word_head:
  assumes "folded_gratitude_word a"
  shows "a \<noteq> [] \<and> is_word (hd a)"
proof -
  have "\<exists>ps. same_fold a (CHR ''t'' # ps) \<or> (\<exists>a1 r. a = a1 @ r \<and> same_fold a1 (CHR ''t'' # ps))"
    using assms unfolding folded_gratitude_word_iff by (auto simp del: same_fold.simps)
  then show ?thesis
    using same_fold_head_t by (auto simp del: same_fold.simps)
qed

lemma thank_at_iff:
  "thank_at lw s \<longleftrightarrow>
   \<not> lw \<and> (\<exists>a r. s = a @ r \<and> folded_gratitude_word a \<and> at_boundary a r)"
proof -
  have b: "word_boundary (is_word (last a)) r = at_boundary a r" if "a \<noteq> []" for a r
    using that by (cases r) (simp_all add: word_boundary_def at_boundary_def)
  have "thank_at lw s \<longleftrightarrow>
     word_boundary lw s \<and>
     (\<exists>a r. s = a @ r \<and> folded_gratitude_word a \<and> word_boundary (is_word (last a)) r)"
  proof -
    have "(\<exists>x \<in> set (thank_group s). case x of (w, r) \<Rightarrow> word_boundary w r) \<longleftrightarrow>
        (\<exists>w r. (w, r) \<in> set (thank_group s) \<and> word_boundary w r)"
      by (simp add: Bex_def)
    also have "\<dots> \<longleftrightarrow>
        (\<exists>a r. s = a @ r \<and> folded_gratitude_word a \<and> word_boundary (is_word (last a)) r)"
      unfolding thank_group_iff by blast
    finally show ?thesis
      unfolding thank_at_def list_ex_iff by simp
  qed
  also have "\<dots> \<longleftrightarrow> \<not> lw \<and> (\<exists>a r. s = a @ r \<and> folded_gratitude_word a \<and> at_boundary a r)"
  proof -
    have "word_boundary lw (a @ r) = (\<not> lw)" if "folded_gratitude_word a" for a r
      using folded_gratitude_word_head [OF that] by (cases a) (simp_all add: word_boundary_def)
    then show ?thesis
      using b folded_gratitude_word_head by metis
  qed
  finally show ?thesis .
qed

lemma thank_scan_iff:
  "thank_scan lw s \<longleftrightarrow>
   (\<exists>pre s'. s = pre @ s' \<and> thank_at (if pre = [] then lw else is_word (last pre)) s')"
proof (induction s arbitrary: lw)
  case Nil
  then show ?case by simp
next
  case (Cons c cs)
  show ?case
  proof
    assume "thank_scan lw (c # cs)"
    then consider "thank_at lw (c # cs)" | "thank_scan (is_word c) cs" by auto
    then show "\<exists>pre s'. c # cs = pre @ s' \<and>
        thank_at (if pre = [] then lw else is_word (last pre)) s'"
    proof cases
      case 1
      show ?thesis
        by (rule exI [of _ "[]"], rule exI [of _ "c # cs"]) (use 1 in simp)
    next
      case 2
      then obtain pre s' where p: "cs = pre @ s'"
          "thank_at (if pre = [] then is_word c else is_word (last pre)) s'"
        unfolding Cons.IH by blast
      show ?thesis
        by (rule exI [of _ "c # pre"], rule exI [of _ s'])
           (use p in \<open>cases "pre = []"; simp\<close>)
    qed
  next
    assume "\<exists>pre s'. c # cs = pre @ s' \<and>
        thank_at (if pre = [] then lw else is_word (last pre)) s'"
    then obtain pre s' where p: "c # cs = pre @ s'"
        "thank_at (if pre = [] then lw else is_word (last pre)) s'"
      by blast
    show "thank_scan lw (c # cs)"
    proof (cases pre)
      case Nil
      with p have "thank_at lw (c # cs)" by simp
      then show ?thesis by simp
    next
      case (Cons d pre')
      with p have "cs = pre' @ s'" "d = c"
          "thank_at (if pre' = [] then is_word c else is_word (last pre')) s'"
        by auto
      then have "thank_scan (is_word c) cs"
        unfolding Cons.IH by blast
      then show ?thesis by simp
    qed
  qed
qed

lemma recognizer_iff:
  "thankYouRegex_MatchString s \<longleftrightarrow>
   (\<exists>before word after. s = before @ word @ after \<and> folded_gratitude_word word \<and>
      at_boundary before word \<and> at_boundary word after)"
proof -
  have b: "at_boundary before word = (\<not> (if before = [] then False else is_word (last before)))"
    if "folded_gratitude_word word" for before word
    using folded_gratitude_word_head [OF that] by (simp add: at_boundary_def)
  have "thankYouRegex_MatchString s \<longleftrightarrow>
    (\<exists>before word after. s = before @ word @ after \<and>
       \<not> (if before = [] then False else is_word (last before)) \<and>
       folded_gratitude_word word \<and> at_boundary word after)"
    unfolding thankYouRegex_MatchString_def thank_scan_iff thank_at_iff by blast
  also have "\<dots> \<longleftrightarrow> (\<exists>before word after. s = before @ word @ after \<and>
      folded_gratitude_word word \<and> at_boundary before word \<and> at_boundary word after)"
    using b by blast
  finally show ?thesis .
qed

lemma same_ci_same_fold: "same_ci w p \<Longrightarrow> same_fold w p"
  unfolding same_ci_def
proof (induction w p rule: list_all2_induct)
  case Nil
  then show ?case by simp
next
  case (Cons c w p ps)
  from Cons(1) have "[c] \<in> set (fold_runes p)"
    by (auto simp: ci_eq_def fold_runes_def)
  with Cons(3) show ?case
    unfolding same_fold_Cons by (intro exI [of _ "[c]"] exI [of _ w]) simp
qed

lemma same_ci_last_word:
  assumes "same_ci w p" and "list_all pattern_letter p" and "p \<noteq> []"
  shows "w \<noteq> [] \<and> is_word (last w)"
proof -
  have "list_all is_word w" if "list_all2 ci_eq w p" "list_all pattern_letter p"
    using that
  proof (induction w p rule: list_all2_induct)
    case Nil
    then show ?case by simp
  next
    case (Cons c w p ps)
    from Cons(1,4) have "is_word c"
      by (auto simp: ci_eq_def pattern_letter_def is_word_def ascii_upper_def)
    with Cons show ?case by simp
  qed
  with assms have "list_all is_word w" by (simp add: same_ci_def)
  moreover from assms(1,3) have "w \<noteq> []" by (auto simp: same_ci_def)
  ultimately show ?thesis by (simp add: list_all_iff)
qed

lemma gratitude_word_folded:
  assumes "gratitude_word w"
  shows "folded_gratitude_word w \<and> w \<noteq> [] \<and> is_word (hd w) \<and> is_word (last w)"
proof -
  let ?b = "dropWhile is_space (drop 5 w)"
  have split: "w = take 5 w @ takeWhile is_space (drop 5 w) @ ?b" by simp
  have spaces: "list_all is_space (takeWhile is_space (drop 5 w))"
    by (auto simp: list_all_iff dest: set_takeWhileD)
  consider (a) "same_ci w ''thanks''" | (b) "same_ci w ''thx''" | (c) "same_ci w ''ty''"
    | (d) "same_ci (take 5 w) ''thank''" "same_ci ?b ''you'' \<or> same_ci ?b ''u''"
    using assms unfolding gratitude_word_def Let_def by blast
  then have "folded_gratitude_word w \<and> is_word (last w)"
  proof cases
    case a
    with same_ci_same_fold [OF a] same_ci_last_word [OF a letters(2)] show ?thesis
      unfolding folded_gratitude_word_iff by simp
  next
    case b
    with same_ci_same_fold [OF b] same_ci_last_word [OF b letters(3)] show ?thesis
      unfolding folded_gratitude_word_iff by simp
  next
    case c
    with same_ci_same_fold [OF c] same_ci_last_word [OF c letters(4)] show ?thesis
      unfolding folded_gratitude_word_iff by simp
  next
    case d
    from d(2) have l: "?b \<noteq> [] \<and> is_word (last ?b)"
      using same_ci_last_word [OF _ letters(5)] same_ci_last_word [OF _ letters(6)] by blast
    have "last w = last (take 5 w @ takeWhile is_space (drop 5 w) @ ?b)"
      by (simp only: takeWhile_dropWhile_id append_take_drop_id)
    also have "\<dots> = last ?b"
      using l by (simp only: last_appendR append_is_Nil_conv simp_thms)
    finally have "last w = last ?b" .
    moreover have "folded_gratitude_word w"
      unfolding folded_gratitude_word_iff
      using split spaces same_ci_same_fold [OF d(1)] d(2) same_ci_same_fold [of ?b]
      by blast
    ultimately show ?thesis using l by simp
  qed
  with folded_gratitude_word_head show ?thesis by blast
qed

lemma standalone_iff_boundaries:
  assumes "gratitude_word w"
  shows "at_boundary pre w \<and> at_boundary w post \<longleftrightarrow> standalone pre post"
proof -
  from gratitude_word_folded [OF assms]
  have w: "w \<noteq> []" "is_word (hd w)" "is_word (last w)" by simp_all
  have "at_boundary pre w = (case rev pre of [] \<Rightarrow> True | c # _ \<Rightarrow> \<not> is_word c)"
    using w by (cases pre rule: rev_cases) (simp_all add: at_boundary_def)
  moreover have "at_boundary w post = (case post of [] \<Rightarrow> True | c # _ \<Rightarrow> \<not> is_word c)"
    using w by (cases post) (simp_all add: at_boundary_def)
  ultimately show ?thesis by (simp add: standalone_def)
qed

text \<open>
  C4. The recognizer does not fire on the texts \<^verbatim>\<open>thankful\<close> and \<^verbatim>\<open>cassandra\<close>; it fires
  on \<^verbatim>\<open>Thank You!\<close>, \<^verbatim>\<open>thx\<close> and \<^verbatim>\<open>ty\<close>; and it fires on every text in which a
  gratitude word, in any mix of upper and lower case, occurs as a standalone word. It does
  not fire on a gratitude word embedded in a longer word (\<^verbatim>\<open>party\<close>, \<^verbatim>\<open>empty\<close>,
  \<^verbatim>\<open>sixty\<close>, \<^verbatim>\<open>thanksgiving\<close>, \<^verbatim>\<open>thankyous\<close>, \<^verbatim>\<open>methanks\<close>). In general, it fires
  on a text exactly when the text holds a gratitude word, up to case folding, with a word
  boundary before it and a word boundary after it; and for a gratitude word written in
  ASCII letters the two word boundaries say that the word stands alone.
\<close>

theorem gratitude_recognizer_word_bounded:
  "\<not> thankYouRegex_MatchString ''thankful'' \<and>
   \<not> thankYouRegex_MatchString ''cassandra'' \<and>
   thankYouRegex_MatchString ''Thank You!'' \<and>
   thankYouRegex_MatchString ''thx'' \<and>
   thankYouRegex_MatchString ''ty'' \<and>
   (gratitude_word w \<and> standalone pre post \<longrightarrow> thankYouRegex_MatchString (pre @ w @ post)) \<and>
   \<not> thankYouRegex_MatchString ''party'' \<and>
   \<not> thankYouRegex_MatchString ''empty'' \<and>
   \<not> thankYouRegex_MatchString ''sixty'' \<and>
   \<not> thankYouRegex_MatchString ''thanksgiving'' \<and>
   \<not> thankYouRegex_MatchString ''thankyous'' \<and>
   \<not> thankYouRegex_MatchString ''methanks'' \<and>
   (thankYouRegex_MatchString s \<longleftrightarrow>
      (\<exists>before word after.
          s = before @ word @ after \<and> folded_gratitude_word word \<and>
          at_boundary before word \<and> at_boundary word after)) \<and>
   (gratitude_word w \<longrightarrow>
      folded_gratitude_word w \<and>
      (at_boundary pre w \<and> at_boundary w post \<longleftrightarrow> standalone pre post))"
proof -
  note defs = thankYouRegex_MatchString_def thank_at_def thank_group_def word_boundary_def
    is_word_def is_space_def ascii_upper_def
  have n1: "\<not> thankYouRegex_MatchString ''thankful''" by (simp add: defs)
  have n2: "\<not> thankYouRegex_MatchString ''cassandra''" by (simp add: defs)
  have p1: "thankYouRegex_MatchString ''Thank You!''" by (simp add: defs)
  have p2: "thankYouRegex_MatchString ''thx''" by (simp add: defs)
  have p3: "thankYouRegex_MatchString ''ty''" by (simp add: defs)
  have g: "gratitude_word w \<and> standalone pre post \<longrightarrow>
      thankYouRegex_MatchString (pre @ w @ post)"
    using standalone_word_matches by blast
  have n3: "\<not> thankYouRegex_MatchString ''party''" by (simp add: defs)
  have n4: "\<not> thankYouRegex_MatchString ''empty''" by (simp add: defs)
  have n5: "\<not> thankYouRegex_MatchString ''sixty''" by (simp add: defs)
  have n6: "\<not> thankYouRegex_MatchString ''thanksgiving''" by (simp add: defs)
  have n7: "\<not> thankYouRegex_MatchString ''thankyous''" by (simp add: defs)
  have n8: "\<not> thankYouRegex_MatchString ''methanks''" by (simp add: defs)
  have c: "gratitude_word w \<longrightarrow>
      folded_gratitude_word w \<and>
      (at_boundary pre w \<and> at_boundary w post \<longleftrightarrow> standalone pre post)"
    using gratitude_word_folded standalone_iff_boundaries by blast
  from n1 n2 p1 p2 p3 g n3 n4 n5 n6 n7 n8 recognizer_iff [of s] c show ?thesis
    by (intro conjI)
qed

theorem gratitude_recognizer_word_bounded_witness:
  "gratitude_word ''THX'' \<and> gratitude_word ''tHaNk   yOu'' \<and>
   standalone ''ok, '' '' Bob.'' \<and>
   thankYouRegex_MatchString (''ok, '' @ ''THX'' @ '' Bob.'') \<and>
   thankYouRegex_MatchString (''ok, '' @ ''tHaNk   yOu'' @ '' Bob.'') \<and>
   folded_gratitude_word ''THX'' \<and>
   at_boundary ''ok, '' ''THX'' \<and> at_boundary ''THX'' '' Bob.'' \<and>
   \<not> thankYouRegex_MatchString ''thanksgiving party'' \<and>
   \<not> (\<exists>before word after.
          ''thanksgiving party'' = before @ word @ after \<and> folded_gratitude_word word \<and>
          at_boundary before word \<and> at_boundary word after)"
proof -
  note defs = thankYouRegex_MatchString_def thank_at_def thank_group_def word_boundary_def
    is_word_def is_space_def ascii_upper_def
  have g1: "gratitude_word ''THX''"
    by (simp add: gratitude_word_def same_ci_def ci_eq_def ascii_upper_def)
  have g2: "gratitude_word ''tHaNk   yOu''"
    by (simp add: gratitude_word_def same_ci_def ci_eq_def ascii_upper_def is_space_def)
  have s: "standalone ''ok, '' '' Bob.''"
    by (simp add: standalone_def is_word_def)
  have n: "\<not> thankYouRegex_MatchString ''thanksgiving party''"
    by (simp add: defs)
  note t1 = gratitude_recognizer_word_bounded
      [where w = "''THX''" and pre = "''ok, ''" and post = "'' Bob.''"
         and s = "''thanksgiving party''"]
  note t2 = gratitude_recognizer_word_bounded
      [where w = "''tHaNk   yOu''" and pre = "''ok, ''" and post = "'' Bob.''"
         and s = "''thanksgiving party''"]
  from t1 g1 s have m1: "thankYouRegex_MatchString (''ok, '' @ ''THX'' @ '' Bob.'')" by blast
  from t2 g2 s have m2: "thankYouRegex_MatchString (''ok, '' @ ''tHaNk   yOu'' @ '' Bob.'')"
    by blast
  from t1 g1 s have f: "folded_gratitude_word ''THX'' \<and>
      at_boundary ''ok, '' ''THX'' \<and> at_boundary ''THX'' '' Bob.''" by blast
  from t1 n have e: "\<not> (\<exists>before word after.
          ''thanksgiving party'' = before @ word @ after \<and> folded_gratitude_word word \<and>
          at_boundary before word \<and> at_boundary word after)" by blast
  from g1 g2 s m1 m2 f n e show ?thesis by (intro conjI) (elim conjE | assumption)+
qed

subsection \<open>C5: gratitude credits the sender\<close>

lemma IncrementKarma_scores:
  "stored_score (snd (IncrementKarma fault userID username givenBy reason channel d)) u =
     (if fault = NoFault \<and> u = userID
      then Some (case stored_score d userID of None \<Rightarrow> 1 | Some s \<Rightarrow> s + 1)
      else stored_score d u)"
proof (cases "fault = NoFault")
  case True
  have "stored_score (insert_karma_log userID givenBy reason channel
                        (upsert_karma userID username d)) u =
        stored_score (upsert_karma userID username d) u"
    by (rule stored_score_cong) (rule karma_insert_karma_log)
  with True show ?thesis by (simp add: IncrementKarma_NoFault stored_score_upsert_karma)
next
  case False
  then show ?thesis by (simp add: IncrementKarma_fault)
qed

lemma IncrementKarma_log:
  "karma_log (snd (IncrementKarma fault userID username givenBy reason channel d)) =
     (if fault = NoFault
      then karma_log d @ [\<lparr>l_UserID = userID, l_GivenBy = givenBy, l_Reason = reason,
                            l_Change = 1, l_Channel = channel\<rparr>]
      else karma_log d)"
  by (cases "fault = NoFault")
     (simp_all add: IncrementKarma_NoFault IncrementKarma_fault insert_karma_log_def
        karma_log_upsert_karma)

definition thank_you_audit_row :: "SlackHandler \<Rightarrow> MessageEvent \<Rightarrow> KarmaLog" where
  "thank_you_audit_row h event =
     \<lparr>l_UserID = ev_User event, l_GivenBy = botID h,
      l_Reason = ''Said thank you in #'' @ getChannelName (ev_Channel event),
      l_Change = 1, l_Channel = ev_Channel event\<rparr>"

lemma handleThankYou_db:
  "db (handleThankYou h e event w) =
     (if \<not> thankYouRegex_MatchString (ev_Text event) then db w
      else case GetUserInfo e (ev_User event) of
             None \<Rightarrow> db w
           | Some userInfo \<Rightarrow>
               snd (IncrementKarma (fault_IncrementKarma e) (ev_User event) (su_Name userInfo)
                      (botID h) (''Said thank you in #'' @ getChannelName (ev_Channel event))
                      (ev_Channel event)
                      (snd (UpsertUser (fault_UpsertUser e)
                             \<lparr>u_ID = su_ID userInfo, u_Username = su_Name userInfo,
                              u_RealName = su_RealName userInfo, u_Email = su_Email userInfo\<rparr>
                             (db w)))))"
  by (simp add: handleThankYou_def Let_def db_postToGratefulChannel db_sendThreadedMessage
        split: option.splits)

text \<open>
  C5, as amended. Take a message that triggers the gratitude recognizer. Whatever the
  environment does and however many users the message mentions, \<^verbatim>\<open>handleThankYou\<close>
  changes the score of no one but the sender. When the sender's profile lookup and the
  ledger write succeed, the sender's score rises by exactly one (a new row with score 1 if
  there was none) and exactly one audit row is appended: for the sender, with change +1,
  the bot's identifier as the giver and the reason \<^verbatim>\<open>Said thank you in #\<close> followed by the
  channel. When the lookup or the write fails, no score changes and no audit row is
  appended.
\<close>

theorem gratitude_credits_sender_only:
  assumes "thankYouRegex_MatchString (ev_Text event)"
  shows "(\<forall>u. u \<noteq> ev_User event \<longrightarrow>
            stored_score (db (handleThankYou h e event w)) u = stored_score (db w) u) \<and>
         (GetUserInfo e (ev_User event) \<noteq> None \<and> fault_IncrementKarma e = NoFault \<longrightarrow>
            stored_score (db (handleThankYou h e event w)) (ev_User event) =
              Some (case stored_score (db w) (ev_User event) of None \<Rightarrow> 1 | Some s \<Rightarrow> s + 1) \<and>
            karma_log (db (handleThankYou h e event w)) =
              karma_log (db w) @ [thank_you_audit_row h event]) \<and>
         (GetUserInfo e (ev_User event) = None \<or> fault_IncrementKarma e \<noteq> NoFault \<longrightarrow>
            stored_score (db (handleThankYou h e event w)) (ev_User event) =
              stored_score (db w) (ev_User event) \<and>
            karma_log (db (handleThankYou h e event w)) = karma_log (db w))"
proof (cases "GetUserInfo e (ev_User event)")
  case None
  with assms show ?thesis by (simp add: handleThankYou_db)
next
  case (Some userInfo)
  let ?d1 = "snd (UpsertUser (fault_UpsertUser e)
                   \<lparr>u_ID = su_ID userInfo, u_Username = su_Name userInfo,
                    u_RealName = su_RealName userInfo, u_Email = su_Email userInfo\<rparr> (db w))"
  have s1: "stored_score ?d1 u = stored_score (db w) u" for u
    by (rule stored_score_cong) (rule UpsertUser_keeps)
  have l1: "karma_log ?d1 = karma_log (db w)"
    by (rule UpsertUser_keeps)
  from assms Some show ?thesis
    by (simp add: handleThankYou_db IncrementKarma_scores IncrementKarma_log s1 l1
          thank_you_audit_row_def)
qed

definition thanks_event :: MessageEvent where
  "thanks_event =
     \<lparr>ev_User = ''U999'', ev_Text = ''Thank you <@U123> and <@U456>!'', ev_Channel = ''C42'',
      ev_TimeStamp = ''1700000000.000300'', ev_SubType = []\<rparr>"

lemma thanks_event_matches: "thankYouRegex_MatchString (ev_Text thanks_event)"
  by (simp add: thanks_event_def thankYouRegex_MatchString_def thank_at_def thank_group_def
        word_boundary_def is_word_def is_space_def ascii_upper_def)

theorem gratitude_credits_sender_only_witness:
  "thankYouRegex_MatchString (ev_Text thanks_event) \<and>
   GetUserInfo example_env (ev_User thanks_event) \<noteq> None \<and>
   fault_IncrementKarma example_env = NoFault \<and>
   stored_score (db (handleThankYou example_handler example_env thanks_event empty_world)) ''U999''
     = Some 1 \<and>
   stored_score (db (handleThankYou example_handler example_env thanks_event empty_world)) ''U123''
     = None \<and>
   stored_score (db (handleThankYou example_handler example_env thanks_event empty_world)) ''U456''
     = None \<and>
   karma_log (db (handleThankYou example_handler example_env thanks_event empty_world)) =
     [\<lparr>l_UserID = ''U999'', l_GivenBy = ''UBOT'', l_Reason = ''Said thank you in #C42'',
       l_Change = 1, l_Channel = ''C42''\<rparr>]"
proof -
  have l: "GetUserInfo example_env (ev_User thanks_event) \<noteq> None"
    and f: "fault_IncrementKarma example_env = NoFault"
    by (simp_all add: example_env_def)
  have s: "stored_score (db empty_world) u = None" for u
    by (simp add: empty_world_def createTables_def stored_score_def)
  have k: "karma_log (db empty_world) = []"
    by (simp add: empty_world_def createTables_def)
  have u: "ev_User thanks_event = ''U999''"
    by (simp add: thanks_event_def)
  have r: "thank_you_audit_row example_handler thanks_event =
      \<lparr>l_UserID = ''U999'', l_GivenBy = ''UBOT'', l_Reason = ''Said thank you in #C42'',
        l_Change = 1, l_Channel = ''C42''\<rparr>"
    by (simp add: thank_you_audit_row_def thanks_event_def example_handler_def getChannelName_def)
  from gratitude_credits_sender_only [OF thanks_event_matches, of example_handler example_env empty_world]
       l f s k u r thanks_event_matches
  show ?thesis by simp
qed

text \<open>
  The claim as stated credits the sender for every message that triggers the recognizer.
  The handler returns before any ledger call when the sender's profile lookup fails: the
  message below triggers the recognizer and leaves the world as it was.
\<close>

theorem gratitude_without_profile_counterexample:
  "thankYouRegex_MatchString (ev_Text thanks_event) \<and>
   handleThankYou example_handler failing_lookup_env thanks_event empty_world = empty_world \<and>
   stored_score (db (handleThankYou example_handler failing_lookup_env thanks_event empty_world))
     (ev_User thanks_event) = None \<and>
   karma_log (db (handleThankYou example_handler failing_lookup_env thanks_event empty_world)) = []"
proof -
  have "handleThankYou example_handler failing_lookup_env thanks_event empty_world = empty_world"
    using thanks_event_matches by (simp add: handleThankYou_def failing_lookup_env_def)
  with thanks_event_matches show ?thesis
    by (simp add: empty_world_def createTables_def stored_score_def)
qed

subsection \<open>C6: the leaderboard query\<close>

lemma sorted_desc_sort_key:
  "sorted_wrt (\<lambda>a b. k_Score b \<le> k_Score a) (sort_key (\<lambda>k. - k_Score k) ks)"
proof -
  have "sorted (map (\<lambda>k. - k_Score k) (sort_key (\<lambda>k. - k_Score k) ks))"
    by (rule sorted_sort_key)
  then show ?thesis by (simp add: sorted_map sorted_wrt_iff_nth_less)
qed

lemma GetTopKarma_rows:
  "GetTopKarma False 10 d = Inr (take 10 (sort_key (\<lambda>k. - k_Score k) (karma d)))"
  by (simp add: GetTopKarma_def)

lemma top_rows_properties:
  fixes ks :: "Karma list"
  defines "sorted_rows \<equiv> sort_key (\<lambda>k. - k_Score k) ks"
  shows "length (take 10 sorted_rows) \<le> 10"
    and "length (take 10 sorted_rows) = min 10 (length ks)"
    and "sorted_wrt (\<lambda>a b. k_Score b \<le> k_Score a) (take 10 sorted_rows)"
    and "mset (take 10 sorted_rows @ drop 10 sorted_rows) = mset ks"
    and "\<forall>r \<in> set (take 10 sorted_rows). \<forall>k \<in> set (drop 10 sorted_rows). k_Score k \<le> k_Score r"
proof -
  show "length (take 10 sorted_rows) \<le> 10" by simp
  show "length (take 10 sorted_rows) = min 10 (length ks)"
    by (simp add: sorted_rows_def min.commute)
  have s: "sorted_wrt (\<lambda>a b. k_Score b \<le> k_Score a) sorted_rows"
    unfolding sorted_rows_def by (rule sorted_desc_sort_key)
  then show "sorted_wrt (\<lambda>a b. k_Score b \<le> k_Score a) (take 10 sorted_rows)"
    by (rule sorted_wrt_take)
  show "mset (take 10 sorted_rows @ drop 10 sorted_rows) = mset ks"
    by (simp add: sorted_rows_def)
  from s have "sorted_wrt (\<lambda>a b. k_Score b \<le> k_Score a) (take 10 sorted_rows @ drop 10 sorted_rows)"
    by simp
  then show "\<forall>r \<in> set (take 10 sorted_rows). \<forall>k \<in> set (drop 10 sorted_rows). k_Score k \<le> k_Score r"
    unfolding sorted_wrt_append by blast
qed

text \<open>
  C6. For every ledger state the leaderboard query, when its statement executes, returns at
  most 10 rows (10, or all of them when the table has fewer), in descending order of
  score, rows of equal score in whatever order the sort leaves them; the rows are rows of
  the table and no row left out has a higher score than a row returned. When the query
  returns no row, the handler posts the empty-state message and nothing else.
\<close>

theorem leaderboard_top_ten_descending:
  "(case GetTopKarma fault 10 d of
      Inl err \<Rightarrow> fault
    | Inr rows \<Rightarrow>
        \<not> fault \<and> length rows \<le> 10 \<and> length rows = min 10 (length (karma d)) \<and>
        sorted_wrt (\<lambda>a b. k_Score b \<le> k_Score a) rows \<and>
        (\<exists>rest. mset (rows @ rest) = mset (karma d) \<and>
                (\<forall>r \<in> set rows. \<forall>k \<in> set rest. k_Score k \<le> k_Score r))) \<and>
   (GetTopKarma (fault_GetTopKarma e) 10 (db w) = Inr [] \<longrightarrow>
      handleTopKarmaCommand e cmd w = Some (respondToSlashCommand cmd msg_no_karma w))"
proof -
  have "handleTopKarmaCommand e cmd w = Some (respondToSlashCommand cmd msg_no_karma w)"
    if "GetTopKarma (fault_GetTopKarma e) 10 (db w) = Inr []"
    using that by (simp add: handleTopKarmaCommand_def)
  moreover have "case GetTopKarma fault 10 d of
      Inl err \<Rightarrow> fault
    | Inr rows \<Rightarrow>
        \<not> fault \<and> length rows \<le> 10 \<and> length rows = min 10 (length (karma d)) \<and>
        sorted_wrt (\<lambda>a b. k_Score b \<le> k_Score a) rows \<and>
        (\<exists>rest. mset (rows @ rest) = mset (karma d) \<and>
                (\<forall>r \<in> set rows. \<forall>k \<in> set rest. k_Score k \<le> k_Score r))"
  proof (cases fault)
    case True
    then show ?thesis by (simp add: GetTopKarma_def)
  next
    case False
    let ?rows = "take 10 (sort_key (\<lambda>k. - k_Score k) (karma d))"
    let ?rest = "drop 10 (sort_key (\<lambda>k. - k_Score k) (karma d))"
    have "mset (?rows @ ?rest) = mset (karma d) \<and>
          (\<forall>r \<in> set ?rows. \<forall>k \<in> set ?rest. k_Score k \<le> k_Score r)"
      using top_rows_properties(4,5) [of "karma d"] by blast
    then have "\<exists>rest. mset (?rows @ rest) = mset (karma d) \<and>
          (\<forall>r \<in> set ?rows. \<forall>k \<in> set rest. k_Score k \<le> k_Score r)"
      by blast
    with False top_rows_properties(1,2,3) [of "karma d"] show ?thesis
      by (simp add: GetTopKarma_rows)
  qed
  ultimately show ?thesis by blast
qed

definition twelve_scores :: "(string \<times> int) list" where
  "twelve_scores =
     [(''U01'', 3), (''U02'', 1), (''U03'', 4), (''U04'', 1), (''U05'', 5), (''U06'', 9),
      (''U07'', 2), (''U08'', 6), (''U09'', 5), (''U10'', 3), (''U11'', 5), (''U12'', 8)]"

definition twelve_ledger :: Database where
  "twelve_ledger =
     createTables\<lparr>karma := map (\<lambda>(u, s). \<lparr>k_UserID = u, k_Username = u, k_Score = s\<rparr>)
                                twelve_scores\<rparr>"

definition top_command :: SlashCommand where
  "top_command =
     \<lparr>cmd_Command = ''/top-karma'', cmd_Text = [], cmd_UserID = ''U999'', cmd_ChannelID = ''C42''\<rparr>"

lemma twelve_ledger_top:
  "GetTopKarma False 10 twelve_ledger =
     Inr (map (\<lambda>(u, s). \<lparr>k_UserID = u, k_Username = u, k_Score = s\<rparr>)
            [(''U06'', 9), (''U12'', 8), (''U08'', 6), (''U05'', 5), (''U09'', 5), (''U11'', 5),
             (''U03'', 4), (''U01'', 3), (''U10'', 3), (''U07'', 2)])"
  by (simp add: GetTopKarma_def twelve_ledger_def twelve_scores_def createTables_def)

theorem leaderboard_top_ten_descending_witness:
  "GetTopKarma False 10 twelve_ledger =
     Inr (map (\<lambda>(u, s). \<lparr>k_UserID = u, k_Username = u, k_Score = s\<rparr>)
            [(''U06'', 9), (''U12'', 8), (''U08'', 6), (''U05'', 5), (''U09'', 5), (''U11'', 5),
             (''U03'', 4), (''U01'', 3), (''U10'', 3), (''U07'', 2)]) \<and>
   GetTopKarma (fault_GetTopKarma example_env) 10 (db empty_world) = Inr [] \<and>
   handleTopKarmaCommand example_env top_command empty_world =
     Some \<lparr>db = createTables,
           outbox = [\<lparr>p_Channel = ''C42'', p_Text = msg_no_karma, p_ThreadTS = None\<rparr>]\<rparr>"
proof -
  have e: "GetTopKarma (fault_GetTopKarma example_env) 10 (db empty_world) = Inr []"
    by (simp add: GetTopKarma_def example_env_def empty_world_def createTables_def)
  from leaderboard_top_ten_descending [of False twelve_ledger example_env empty_world top_command] e
  have "handleTopKarmaCommand example_env top_command empty_world =
          Some (respondToSlashCommand top_command msg_no_karma empty_world)"
    by blast
  with e twelve_ledger_top show ?thesis
    by (simp add: respondToSlashCommand_def empty_world_def top_command_def)
qed

subsection \<open>C7: \<^verbatim>\<open>/set-birthday\<close> validates its argument\<close>

text \<open>
  \<open>rejects e cmd w\<close>: the handler does nothing but reply with one of the five corrective
  messages (usage, format, invalid month, invalid day, invalid year).
\<close>

definition corrective_messages :: "string list" where
  "corrective_messages =
     [msg_birthday_usage, msg_birthday_format, msg_invalid_month, msg_invalid_day,
      msg_invalid_year]"

definition rejects :: "Env \<Rightarrow> SlashCommand \<Rightarrow> World \<Rightarrow> bool" where
  "rejects e cmd w \<longleftrightarrow>
     list_ex (\<lambda>msg. handleSetBirthdayCommand e cmd w = respondToSlashCommand cmd msg w)
       corrective_messages"

definition stored_birthday ::
    "SlashCommand \<Rightarrow> SlackUser \<Rightarrow> int \<Rightarrow> int \<Rightarrow> int \<Rightarrow> Birthday" where
  "stored_birthday cmd userInfo month day year =
     \<lparr>b_UserID = cmd_UserID cmd, b_Username = su_Name userInfo, b_Month = month, b_Day = day,
      b_Year = year, b_Timezone = ''UTC''\<rparr>"

lemma rejectsI:
  "handleSetBirthdayCommand e cmd w = respondToSlashCommand cmd msg w \<Longrightarrow>
   msg \<in> set corrective_messages \<Longrightarrow> rejects e cmd w"
  unfolding rejects_def list_ex_iff by blast

lemma rejected_unless_valid:
  fixes e cmd w
  defines "parts \<equiv> Split_slash (TrimSpace (cmd_Text cmd))"
  shows "rejects e cmd w \<or>
         (cmd_Text cmd \<noteq> [] \<and> 2 \<le> length parts \<and> length parts \<le> 3 \<and>
          (\<exists>month day.
              Atoi (parts ! 0) = Some month \<and> 1 \<le> month \<and> month \<le> 12 \<and>
              Atoi (parts ! 1) = Some day \<and> 1 \<le> day \<and> day \<le> 31) \<and>
          (length parts = 3 \<longrightarrow>
             (\<exists>year. Atoi (parts ! 2) = Some year \<and> 1900 \<le> year \<and> year \<le> now_Year e)))"
proof -
  have usage: "rejects e cmd w" if "cmd_Text cmd = []"
    by (rule rejectsI [of _ _ _ msg_birthday_usage])
       (use that in \<open>simp_all add: handleSetBirthdayCommand_def corrective_messages_def\<close>)
  have format: "rejects e cmd w" if "cmd_Text cmd \<noteq> []" "length parts < 2 \<or> 3 < length parts"
    by (rule rejectsI [of _ _ _ msg_birthday_format])
       (use that in \<open>simp_all add: handleSetBirthdayCommand_def corrective_messages_def Let_def
          parts_def\<close>)
  have month: "rejects e cmd w"
    if "cmd_Text cmd \<noteq> []" "\<not> (length parts < 2 \<or> 3 < length parts)"
      "\<forall>month. Atoi (parts ! 0) = Some month \<longrightarrow> month < 1 \<or> 12 < month"
    by (rule rejectsI [of _ _ _ msg_invalid_month])
       (use that in \<open>auto simp: handleSetBirthdayCommand_def corrective_messages_def Let_def
          parts_def split: option.splits\<close>)
  have day: "rejects e cmd w"
    if "cmd_Text cmd \<noteq> []" "\<not> (length parts < 2 \<or> 3 < length parts)"
      "Atoi (parts ! 0) = Some month" "\<not> (month < 1 \<or> 12 < month)"
      "\<forall>day. Atoi (parts ! 1) = Some day \<longrightarrow> day < 1 \<or> 31 < day" for month
    by (rule rejectsI [of _ _ _ msg_invalid_day])
       (use that in \<open>auto simp: handleSetBirthdayCommand_def corrective_messages_def Let_def
          parts_def split: option.splits\<close>)
  have year: "rejects e cmd w"
    if "cmd_Text cmd \<noteq> []" "\<not> (length parts < 2 \<or> 3 < length parts)"
      "Atoi (parts ! 0) = Some month" "\<not> (month < 1 \<or> 12 < month)"
      "Atoi (parts ! 1) = Some day" "\<not> (day < 1 \<or> 31 < day)"
      "length parts = 3"
      "\<forall>year. Atoi (parts ! 2) = Some year \<longrightarrow> year < 1900 \<or> now_Year e < year" for month day
    by (rule rejectsI [of _ _ _ msg_invalid_year])
       (use that in \<open>auto simp: handleSetBirthdayCommand_def corrective_messages_def Let_def
          parts_def split: option.splits\<close>)
  show ?thesis
    using usage format month day year
    by (metis linorder_not_less)
qed


lemma rejects_keeps_ledger:
  "rejects e cmd w \<Longrightarrow>
     db (handleSetBirthdayCommand e cmd w) = db w \<and>
     length (outbox (handleSetBirthdayCommand e cmd w)) = length (outbox w) + 1"
  unfolding rejects_def list_ex_iff by (auto simp: respondToSlashCommand_def)

lemma parts_03_15: "Split_slash (TrimSpace ''03/15'') = [''03'', ''15'']"
  by (simp add: TrimSpace_def trim_head.simps rune_at_head_def space_runes_def)

lemma parts_03_15_1990: "Split_slash (TrimSpace ''03/15/1990'') = [''03'', ''15'', ''1990'']"
  by (simp add: TrimSpace_def trim_head.simps rune_at_head_def space_runes_def)

lemma Atoi_examples: "Atoi ''03'' = Some 3" "Atoi ''15'' = Some 15" "Atoi ''1990'' = Some 1990"
  by (simp_all add: Atoi_def digit_value_def)

lemma accepted_03_15:
  assumes "cmd_Text cmd = ''03/15''"
  shows "handleSetBirthdayCommand e cmd w =
     (case GetUserInfo e (cmd_UserID cmd) of
        None \<Rightarrow> respondToSlashCommand cmd msg_user_info_error w
      | Some userInfo \<Rightarrow>
          if fault_SetBirthday e then respondToSlashCommand cmd msg_birthday_save_error w
          else respondToSlashCommand cmd (msg_birthday_saved 3 15 0)
                 (w\<lparr>db := (db w)\<lparr>birthdays :=
                    filter (\<lambda>b. b_UserID b \<noteq> cmd_UserID cmd) (birthdays (db w))
                      @ [stored_birthday cmd userInfo 3 15 0]\<rparr>\<rparr>))"
  using assms
  by (simp add: handleSetBirthdayCommand_def parts_03_15 Atoi_examples Let_def SetBirthday_def
        stored_birthday_def split: option.splits)

lemma accepted_03_15_1990:
  assumes "cmd_Text cmd = ''03/15/1990''" and "1990 \<le> now_Year e"
  shows "handleSetBirthdayCommand e cmd w =
     (case GetUserInfo e (cmd_UserID cmd) of
        None \<Rightarrow> respondToSlashCommand cmd msg_user_info_error w
      | Some userInfo \<Rightarrow>
          if fault_SetBirthday e then respondToSlashCommand cmd msg_birthday_save_error w
          else respondToSlashCommand cmd (msg_birthday_saved 3 15 1990)
                 (w\<lparr>db := (db w)\<lparr>birthdays :=
                    filter (\<lambda>b. b_UserID b \<noteq> cmd_UserID cmd) (birthdays (db w))
                      @ [stored_birthday cmd userInfo 3 15 1990]\<rparr>\<rparr>))"
  using assms
  by (simp add: handleSetBirthdayCommand_def parts_03_15_1990 Atoi_examples Let_def
        SetBirthday_def stored_birthday_def split: option.splits)

lemma last_reply_text: "p_Text (last (outbox (respondToSlashCommand cmd msg w))) = msg"
  by (simp add: respondToSlashCommand_def)

lemma accepted_reply_not_corrective:
  assumes "handleSetBirthdayCommand e cmd w =
     (case GetUserInfo e (cmd_UserID cmd) of
        None \<Rightarrow> respondToSlashCommand cmd msg_user_info_error w
      | Some userInfo \<Rightarrow>
          if fault_SetBirthday e then respondToSlashCommand cmd msg_birthday_save_error w
          else respondToSlashCommand cmd (msg_birthday_saved month day year) (w1 userInfo))"
  shows "\<not> rejects e cmd w"
proof
  assume "rejects e cmd w"
  then obtain msg where msg: "msg \<in> set corrective_messages"
    and eq: "handleSetBirthdayCommand e cmd w = respondToSlashCommand cmd msg w"
    unfolding rejects_def list_ex_iff by blast
  from eq have "p_Text (last (outbox (handleSetBirthdayCommand e cmd w))) = msg"
    by (simp add: last_reply_text)
  with assms have "msg = msg_user_info_error \<or> msg = msg_birthday_save_error \<or>
      msg = msg_birthday_saved month day year"
    by (auto simp: last_reply_text split: option.splits if_splits)
  moreover have "msg_user_info_error \<notin> set corrective_messages"
    by (simp add: corrective_messages_def msg_birthday_usage_def msg_birthday_format_def
          msg_invalid_month_def msg_invalid_day_def msg_invalid_year_def msg_user_info_error_def)
  moreover have "msg_birthday_save_error \<notin> set corrective_messages"
    by (simp add: corrective_messages_def msg_birthday_usage_def msg_birthday_format_def
          msg_invalid_month_def msg_invalid_day_def msg_invalid_year_def
          msg_birthday_save_error_def)
  moreover have "msg_birthday_saved month day year \<notin> set corrective_messages"
    by (simp add: corrective_messages_def msg_birthday_usage_def msg_birthday_format_def
          msg_invalid_month_def msg_invalid_day_def msg_invalid_year_def msg_birthday_saved_def)
  ultimately show False using msg by blast
qed

lemma accepted_reaches_lookup:
  assumes "\<not> rejects e cmd w"
  shows "\<exists>month day year.
     handleSetBirthdayCommand e cmd w =
     (case GetUserInfo e (cmd_UserID cmd) of
        None \<Rightarrow> respondToSlashCommand cmd msg_user_info_error w
      | Some userInfo \<Rightarrow>
          if fault_SetBirthday e then respondToSlashCommand cmd msg_birthday_save_error w
          else respondToSlashCommand cmd (msg_birthday_saved month day year)
                 (w\<lparr>db := (db w)\<lparr>birthdays :=
                    filter (\<lambda>b. b_UserID b \<noteq> cmd_UserID cmd) (birthdays (db w))
                      @ [stored_birthday cmd userInfo month day year]\<rparr>\<rparr>))"
proof -
  define parts where "parts = Split_slash (TrimSpace (cmd_Text cmd))"
  from rejected_unless_valid [of e cmd w, folded parts_def] assms
  obtain month day where v: "cmd_Text cmd \<noteq> []" "2 \<le> length parts" "length parts \<le> 3"
      "Atoi (parts ! 0) = Some month" "1 \<le> month" "month \<le> 12"
      "Atoi (parts ! 1) = Some day" "1 \<le> day" "day \<le> 31"
    and y: "length parts = 3 \<longrightarrow>
             (\<exists>year. Atoi (parts ! 2) = Some year \<and> 1900 \<le> year \<and> year \<le> now_Year e)"
    by blast
  show ?thesis
  proof (cases "length parts = 3")
    case True
    with y obtain year where "Atoi (parts ! 2) = Some year" "1900 \<le> year" "year \<le> now_Year e"
      by blast
    with v True show ?thesis
      by (intro exI [of _ month] exI [of _ day] exI [of _ year])
         (simp add: handleSetBirthdayCommand_def Let_def SetBirthday_def stored_birthday_def
            parts_def [symmetric] split: option.splits)
  next
    case False
    with v show ?thesis
      by (intro exI [of _ month] exI [of _ day] exI [of _ 0])
         (simp add: handleSetBirthdayCommand_def Let_def SetBirthday_def stored_birthday_def
            parts_def [symmetric] split: option.splits)
  qed
qed

text \<open>
  C7, as amended. Let \<open>parts\<close> be the argument, trimmed and split at the slashes. The
  handler rejects the command when the month parses to a number outside 1..12 (so for
  month 13), when the day parses to a number outside 1..31 (so for day 0 and day 32), and
  when a third part parses to a year before 1900 or after the current year. A rejection
  replies with one corrective message and leaves the ledger as it was. The arguments
  \<^verbatim>\<open>03/15\<close> and, the current year being at least 1990, \<^verbatim>\<open>03/15/1990\<close> are not
  rejected; when the caller's profile lookup and the ledger write succeed, the caller's
  birthday row is replaced by one with month 3, day 15 and year 0 (unknown), respectively
  year 1990. When the lookup or the write fails, the ledger stays as it was; and for every
  command that is not rejected, the handler then does nothing but reply with the message
  \<^verbatim>\<open>Error getting your user info!\<close> when the lookup fails, and with the message
  \<^verbatim>\<open>Error saving your birthday!\<close> when the lookup succeeds and the write fails.
\<close>

theorem set_birthday_validates_then_upserts:
  fixes e cmd w
  defines "parts \<equiv> Split_slash (TrimSpace (cmd_Text cmd))"
    and "w' \<equiv> handleSetBirthdayCommand e cmd w"
  shows
   "((\<exists>month. Atoi (parts ! 0) = Some month \<and> (month < 1 \<or> 12 < month)) \<longrightarrow> rejects e cmd w) \<and>
    (2 \<le> length parts \<and> (\<exists>day. Atoi (parts ! 1) = Some day \<and> (day < 1 \<or> 31 < day))
       \<longrightarrow> rejects e cmd w) \<and>
    (length parts = 3 \<and>
       (\<exists>year. Atoi (parts ! 2) = Some year \<and> (year < 1900 \<or> now_Year e < year))
       \<longrightarrow> rejects e cmd w) \<and>
    (rejects e cmd w \<longrightarrow> db w' = db w \<and> length (outbox w') = length (outbox w) + 1) \<and>
    (cmd_Text cmd = ''03/15'' \<or> cmd_Text cmd = ''03/15/1990'' \<and> 1990 \<le> now_Year e
       \<longrightarrow> \<not> rejects e cmd w) \<and>
    (GetUserInfo e (cmd_UserID cmd) = Some userInfo \<and> \<not> fault_SetBirthday e \<longrightarrow>
       (cmd_Text cmd = ''03/15'' \<longrightarrow>
          birthdays (db w') =
            filter (\<lambda>b. b_UserID b \<noteq> cmd_UserID cmd) (birthdays (db w))
              @ [stored_birthday cmd userInfo 3 15 0]) \<and>
       (cmd_Text cmd = ''03/15/1990'' \<and> 1990 \<le> now_Year e \<longrightarrow>
          birthdays (db w') =
            filter (\<lambda>b. b_UserID b \<noteq> cmd_UserID cmd) (birthdays (db w))
              @ [stored_birthday cmd userInfo 3 15 1990])) \<and>
    (GetUserInfo e (cmd_UserID cmd) = None \<or> fault_SetBirthday e \<longrightarrow> db w' = db w) \<and>
    (\<not> rejects e cmd w \<and> GetUserInfo e (cmd_UserID cmd) = None \<longrightarrow>
       w' = respondToSlashCommand cmd msg_user_info_error w) \<and>
    (\<not> rejects e cmd w \<and> GetUserInfo e (cmd_UserID cmd) = Some userInfo \<and> fault_SetBirthday e
       \<longrightarrow> w' = respondToSlashCommand cmd msg_birthday_save_error w)"
proof -
  note v = rejected_unless_valid [of e cmd w, folded parts_def]
  have m: "rejects e cmd w" if "Atoi (parts ! 0) = Some month" "month < 1 \<or> 12 < month" for month
    using v that by auto
  have d: "rejects e cmd w"
    if "2 \<le> length parts" "Atoi (parts ! 1) = Some day" "day < 1 \<or> 31 < day" for day
    using v that by auto
  have y: "rejects e cmd w"
    if "length parts = 3" "Atoi (parts ! 2) = Some year" "year < 1900 \<or> now_Year e < year" for year
    using v that by auto
  have r: "db w' = db w \<and> length (outbox w') = length (outbox w) + 1" if "rejects e cmd w"
    unfolding w'_def using that by (rule rejects_keeps_ledger)
  have a1: "\<not> rejects e cmd w" if "cmd_Text cmd = ''03/15''"
    using accepted_reply_not_corrective [OF accepted_03_15 [OF that]] .
  have a2: "\<not> rejects e cmd w" if "cmd_Text cmd = ''03/15/1990''" "1990 \<le> now_Year e"
    using accepted_reply_not_corrective [OF accepted_03_15_1990 [OF that]] .
  have u1: "birthdays (db w') =
      filter (\<lambda>b. b_UserID b \<noteq> cmd_UserID cmd) (birthdays (db w)) @ [stored_birthday cmd userInfo 3 15 0]"
    if "GetUserInfo e (cmd_UserID cmd) = Some userInfo" "\<not> fault_SetBirthday e" "cmd_Text cmd = ''03/15''"
    unfolding w'_def accepted_03_15 [OF that(3)] using that(1,2)
    by (simp add: respondToSlashCommand_def)
  have u2: "birthdays (db w') =
      filter (\<lambda>b. b_UserID b \<noteq> cmd_UserID cmd) (birthdays (db w)) @ [stored_birthday cmd userInfo 3 15 1990]"
    if "GetUserInfo e (cmd_UserID cmd) = Some userInfo" "\<not> fault_SetBirthday e"
       "cmd_Text cmd = ''03/15/1990''" "1990 \<le> now_Year e"
    unfolding w'_def accepted_03_15_1990 [OF that(3,4)] using that(1,2)
    by (simp add: respondToSlashCommand_def)
  have f: "db w' = db w" if "GetUserInfo e (cmd_UserID cmd) = None \<or> fault_SetBirthday e"
    unfolding w'_def using that
    by (auto simp: handleSetBirthdayCommand_def Let_def respondToSlashCommand_def SetBirthday_def
          split: option.splits)
  have g1: "w' = respondToSlashCommand cmd msg_user_info_error w"
    if "\<not> rejects e cmd w" "GetUserInfo e (cmd_UserID cmd) = None"
    unfolding w'_def using accepted_reaches_lookup [OF that(1)] that(2) by auto
  have g2: "w' = respondToSlashCommand cmd msg_birthday_save_error w"
    if "\<not> rejects e cmd w" "GetUserInfo e (cmd_UserID cmd) = Some userInfo" "fault_SetBirthday e"
    unfolding w'_def using accepted_reaches_lookup [OF that(1)] that(2,3) by auto
  have c1: "(\<exists>month. Atoi (parts ! 0) = Some month \<and> (month < 1 \<or> 12 < month))
      \<longrightarrow> rejects e cmd w"
    using m by blast
  have c2: "2 \<le> length parts \<and> (\<exists>day. Atoi (parts ! 1) = Some day \<and> (day < 1 \<or> 31 < day))
      \<longrightarrow> rejects e cmd w"
    using d by blast
  have c3: "length parts = 3 \<and>
      (\<exists>year. Atoi (parts ! 2) = Some year \<and> (year < 1900 \<or> now_Year e < year))
      \<longrightarrow> rejects e cmd w"
    using y by blast
  have c4: "rejects e cmd w \<longrightarrow> db w' = db w \<and> length (outbox w') = length (outbox w) + 1"
    using r by (rule impI)
  have c5: "cmd_Text cmd = ''03/15'' \<or> cmd_Text cmd = ''03/15/1990'' \<and> 1990 \<le> now_Year e
      \<longrightarrow> \<not> rejects e cmd w"
  proof
    assume "cmd_Text cmd = ''03/15'' \<or> cmd_Text cmd = ''03/15/1990'' \<and> 1990 \<le> now_Year e"
    then show "\<not> rejects e cmd w"
    proof
      assume "cmd_Text cmd = ''03/15''"
      then show ?thesis by (rule a1)
    next
      assume "cmd_Text cmd = ''03/15/1990'' \<and> 1990 \<le> now_Year e"
      then show ?thesis using a2 by (elim conjE)
    qed
  qed
  have c6: "GetUserInfo e (cmd_UserID cmd) = Some userInfo \<and> \<not> fault_SetBirthday e \<longrightarrow>
       (cmd_Text cmd = ''03/15'' \<longrightarrow>
          birthdays (db w') =
            filter (\<lambda>b. b_UserID b \<noteq> cmd_UserID cmd) (birthdays (db w))
              @ [stored_birthday cmd userInfo 3 15 0]) \<and>
       (cmd_Text cmd = ''03/15/1990'' \<and> 1990 \<le> now_Year e \<longrightarrow>
          birthdays (db w') =
            filter (\<lambda>b. b_UserID b \<noteq> cmd_UserID cmd) (birthdays (db w))
              @ [stored_birthday cmd userInfo 3 15 1990])"
  proof (intro impI conjI)
    assume p: "GetUserInfo e (cmd_UserID cmd) = Some userInfo \<and> \<not> fault_SetBirthday e"
    {
      assume "cmd_Text cmd = ''03/15''"
      with p show "birthdays (db w') =
            filter (\<lambda>b. b_UserID b \<noteq> cmd_UserID cmd) (birthdays (db w))
              @ [stored_birthday cmd userInfo 3 15 0]"
        using u1 by (elim conjE)
    }
    {
      assume "cmd_Text cmd = ''03/15/1990'' \<and> 1990 \<le> now_Year e"
      with p show "birthdays (db w') =
            filter (\<lambda>b. b_UserID b \<noteq> cmd_UserID cmd) (birthdays (db w))
              @ [stored_birthday cmd userInfo 3 15 1990]"
        using u2 by (elim conjE)
    }
  qed
  have c7: "GetUserInfo e (cmd_UserID cmd) = None \<or> fault_SetBirthday e \<longrightarrow> db w' = db w"
    using f by (rule impI)
  have c8: "\<not> rejects e cmd w \<and> GetUserInfo e (cmd_UserID cmd) = None \<longrightarrow>
       w' = respondToSlashCommand cmd msg_user_info_error w"
    using g1 by (intro impI) (elim conjE)
  have c9: "\<not> rejects e cmd w \<and> GetUserInfo e (cmd_UserID cmd) = Some userInfo \<and> fault_SetBirthday e
       \<longrightarrow> w' = respondToSlashCommand cmd msg_birthday_save_error w"
    using g2 by (intro impI) (elim conjE)
  show ?thesis
    by (intro conjI; fact)
qed

definition failing_write_env :: Env where
  "failing_write_env = example_env\<lparr>fault_SetBirthday := True\<rparr>"

definition birthday_command :: "string \<Rightarrow> SlashCommand" where
  "birthday_command txt =
     \<lparr>cmd_Command = ''/set-birthday'', cmd_Text = txt, cmd_UserID = ''U999'',
      cmd_ChannelID = ''C42''\<rparr>"

lemma example_parts:
  "Split_slash (TrimSpace ''13/15'') = [''13'', ''15'']"
  "Split_slash (TrimSpace ''03/0'') = [''03'', ''0'']"
  "Split_slash (TrimSpace ''03/32'') = [''03'', ''32'']"
  "Split_slash (TrimSpace ''03/15/1899'') = [''03'', ''15'', ''1899'']"
  "Split_slash (TrimSpace ''03/15/2027'') = [''03'', ''15'', ''2027'']"
  by (simp_all add: TrimSpace_def trim_head.simps rune_at_head_def space_runes_def)

lemma example_numbers:
  "Atoi ''13'' = Some 13" "Atoi ''0'' = Some 0" "Atoi ''32'' = Some 32"
  "Atoi ''1899'' = Some 1899" "Atoi ''2027'' = Some 2027"
  by (simp_all add: Atoi_def digit_value_def)

theorem set_birthday_validates_then_upserts_witness:
  "rejects example_env (birthday_command ''13/15'') empty_world \<and>
   rejects example_env (birthday_command ''03/0'') empty_world \<and>
   rejects example_env (birthday_command ''03/32'') empty_world \<and>
   rejects example_env (birthday_command ''03/15/1899'') empty_world \<and>
   rejects example_env (birthday_command ''03/15/2027'') empty_world \<and>
   db (handleSetBirthdayCommand example_env (birthday_command ''13/15'') empty_world) =
     db empty_world \<and>
   \<not> rejects example_env (birthday_command ''03/15'') empty_world \<and>
   birthdays (db (handleSetBirthdayCommand example_env (birthday_command ''03/15'') empty_world)) =
     [\<lparr>b_UserID = ''U999'', b_Username = ''user-U999'', b_Month = 3, b_Day = 15, b_Year = 0,
       b_Timezone = ''UTC''\<rparr>] \<and>
   birthdays (db (handleSetBirthdayCommand example_env (birthday_command ''03/15/1990'')
                    empty_world)) =
     [\<lparr>b_UserID = ''U999'', b_Username = ''user-U999'', b_Month = 3, b_Day = 15, b_Year = 1990,
       b_Timezone = ''UTC''\<rparr>] \<and>
   handleSetBirthdayCommand failing_lookup_env (birthday_command ''03/15/1990'') empty_world =
     empty_world\<lparr>outbox :=
       [\<lparr>p_Channel = ''C42'', p_Text = msg_user_info_error, p_ThreadTS = None\<rparr>]\<rparr> \<and>
   handleSetBirthdayCommand failing_write_env (birthday_command ''03/15'') empty_world =
     empty_world\<lparr>outbox :=
       [\<lparr>p_Channel = ''C42'', p_Text = msg_birthday_save_error, p_ThreadTS = None\<rparr>]\<rparr>"
proof -
  note t = set_birthday_validates_then_upserts
  have y: "now_Year example_env = 2026"
    by (simp add: example_env_def)
  have f: "\<not> fault_SetBirthday example_env"
    by (simp add: example_env_def)
  have l: "GetUserInfo example_env (cmd_UserID (birthday_command arg)) =
      Some (example_profile ''U999'')" for arg
    by (simp add: example_env_def birthday_command_def)
  have x: "cmd_Text (birthday_command arg) = arg" "cmd_UserID (birthday_command arg) = ''U999''"
    for arg
    by (simp_all add: birthday_command_def)
  have b: "birthdays (db empty_world) = []"
    by (simp add: empty_world_def createTables_def)
  have r1: "rejects example_env (birthday_command ''13/15'') empty_world"
    using t [of "birthday_command ''13/15''" example_env empty_world]
    by (simp add: x example_parts example_numbers)
  have r2: "rejects example_env (birthday_command ''03/0'') empty_world"
    using t [of "birthday_command ''03/0''" example_env empty_world]
    by (simp add: x example_parts example_numbers)
  have r3: "rejects example_env (birthday_command ''03/32'') empty_world"
    using t [of "birthday_command ''03/32''" example_env empty_world]
    by (simp add: x example_parts example_numbers)
  have r4: "rejects example_env (birthday_command ''03/15/1899'') empty_world"
    using t [of "birthday_command ''03/15/1899''" example_env empty_world]
    by (simp add: x example_parts example_numbers)
  have r5: "rejects example_env (birthday_command ''03/15/2027'') empty_world"
    using t [of "birthday_command ''03/15/2027''" example_env empty_world]
    by (simp add: x y example_parts example_numbers)
  have k: "db (handleSetBirthdayCommand example_env (birthday_command ''13/15'') empty_world) =
      db empty_world"
    using t [of "birthday_command ''13/15''" example_env empty_world] r1 by blast
  have a0: "\<not> rejects example_env (birthday_command ''03/15'') empty_world"
    using t [of "birthday_command ''03/15''" example_env empty_world] by (simp add: x)
  have a1: "birthdays (db (handleSetBirthdayCommand example_env (birthday_command ''03/15'')
      empty_world)) = [stored_birthday (birthday_command ''03/15'') (example_profile ''U999'') 3 15 0]"
    using t [of "birthday_command ''03/15''" example_env empty_world "example_profile ''U999''"] l f
    by (simp add: x b)
  have a2: "birthdays (db (handleSetBirthdayCommand example_env (birthday_command ''03/15/1990'')
      empty_world)) =
      [stored_birthday (birthday_command ''03/15/1990'') (example_profile ''U999'') 3 15 1990]"
    using t [of "birthday_command ''03/15/1990''" example_env empty_world "example_profile ''U999''"] l f
    by (simp add: x y b)
  have yl: "now_Year failing_lookup_env = 2026"
    by (simp add: failing_lookup_env_def example_env_def)
  have ll: "GetUserInfo failing_lookup_env (cmd_UserID (birthday_command arg)) = None" for arg
    by (simp add: failing_lookup_env_def)
  have lw: "GetUserInfo failing_write_env (cmd_UserID (birthday_command arg)) =
      Some (example_profile ''U999'')" for arg
    by (simp add: failing_write_env_def example_env_def birthday_command_def)
  have fw: "fault_SetBirthday failing_write_env"
    by (simp add: failing_write_env_def)
  have e1: "handleSetBirthdayCommand failing_lookup_env (birthday_command ''03/15/1990'')
      empty_world =
      respondToSlashCommand (birthday_command ''03/15/1990'') msg_user_info_error empty_world"
    using t [of "birthday_command ''03/15/1990''" failing_lookup_env empty_world] ll
    by (simp add: x yl)
  have e2: "handleSetBirthdayCommand failing_write_env (birthday_command ''03/15'') empty_world =
      respondToSlashCommand (birthday_command ''03/15'') msg_birthday_save_error empty_world"
    using t [of "birthday_command ''03/15''" failing_write_env empty_world
               "example_profile ''U999''"] lw fw
    by (simp add: x)
  have o: "respondToSlashCommand (birthday_command arg) msg empty_world =
      empty_world\<lparr>outbox := [\<lparr>p_Channel = ''C42'', p_Text = msg, p_ThreadTS = None\<rparr>]\<rparr>"
    for arg msg
    by (simp add: respondToSlashCommand_def birthday_command_def empty_world_def)
  from r1 r2 r3 r4 r5 k a0 a1 a2 e1 e2 show ?thesis
    by (simp add: stored_birthday_def x example_profile_def o)
qed

text \<open>
  The claim as stated has the handler upsert the caller's record whenever it accepts
  \<^verbatim>\<open>03/15\<close>. Between the validation and the upsert stands the profile lookup: when it
  fails, the handler replies with an error message and stores nothing.
\<close>

theorem set_birthday_without_profile_counterexample:
  "handleSetBirthdayCommand failing_lookup_env (birthday_command ''03/15'') empty_world =
     respondToSlashCommand (birthday_command ''03/15'') msg_user_info_error empty_world \<and>
   birthdays (db (handleSetBirthdayCommand failing_lookup_env (birthday_command ''03/15'')
                    empty_world)) = []"
proof -
  have "cmd_Text (birthday_command ''03/15'') = ''03/15''"
    by (simp add: birthday_command_def)
  from accepted_03_15 [OF this, of failing_lookup_env empty_world]
  have "handleSetBirthdayCommand failing_lookup_env (birthday_command ''03/15'') empty_world =
     respondToSlashCommand (birthday_command ''03/15'') msg_user_info_error empty_world"
    by (simp add: failing_lookup_env_def)
  then show ?thesis
    by (simp add: db_respondToSlashCommand empty_world_def createTables_def)
qed

subsection \<open>C8: the daily birthday sweep\<close>

definition birthday_post :: "SlackHandler \<Rightarrow> Env \<Rightarrow> Birthday \<Rightarrow> Post" where
  "birthday_post h e birthday =
     \<lparr>p_Channel = peopleChannel h, p_Text = birthday_message e birthday, p_ThreadTS = None\<rparr>"

definition todays_birthdays :: "Env \<Rightarrow> Database \<Rightarrow> Birthday list" where
  "todays_birthdays e d =
     filter (\<lambda>b. b_Month b = now_Month e \<and> b_Day b = now_Day e) (birthdays d)"

lemma SendBirthdayReminder_loop_posts:
  "SendBirthdayReminder_loop h e bs w = w\<lparr>outbox := outbox w @ map (birthday_post h e) bs\<rparr>"
  by (induction bs arbitrary: w) (simp_all add: sendMessage_def birthday_post_def)

lemma phrasings_differ: "birthday_message_with_age userID age \<noteq> birthday_message_generic userID"
  by (simp add: birthday_message_with_age_def birthday_message_generic_def)

text \<open>
  C8, as amended. When the query for today's birthdays executes, the sweep posts exactly
  one message to the primary channel for every birthday row whose month and day are
  today's, in table order, and nothing else; when the query fails it posts nothing. The
  sweep never changes the ledger. The message has the generic phrasing when the stored year
  is 0 (unknown) and the age-aware phrasing, with the age computed as the current year
  minus the stored year, when the stored year is after 1970; the two phrasings differ.
\<close>

theorem birthday_sweep_one_message_each:
  "(\<not> fault_GetTodaysBirthdays e \<longrightarrow>
      outbox (SendBirthdayReminder h e w) =
        outbox w @ map (birthday_post h e) (todays_birthdays e (db w))) \<and>
   (fault_GetTodaysBirthdays e \<longrightarrow> SendBirthdayReminder h e w = w) \<and>
   db (SendBirthdayReminder h e w) = db w \<and>
   (b_Year b = 0 \<longrightarrow> birthday_message e b = birthday_message_generic (b_UserID b)) \<and>
   (1970 < b_Year b \<longrightarrow>
      birthday_message e b = birthday_message_with_age (b_UserID b) (now_Year e - b_Year b)) \<and>
   birthday_message_with_age userID age \<noteq> birthday_message_generic userID"
  by (simp add: SendBirthdayReminder_def GetTodaysBirthdays_def SendBirthdayReminder_loop_posts
        todays_birthdays_def birthday_message_def phrasings_differ)

definition birthday_ledger :: Database where
  "birthday_ledger =
     createTables\<lparr>birthdays :=
       [\<lparr>b_UserID = ''U1'', b_Username = ''ann'', b_Month = 3, b_Day = 15, b_Year = 1990,
         b_Timezone = ''UTC''\<rparr>,
        \<lparr>b_UserID = ''U2'', b_Username = ''bob'', b_Month = 3, b_Day = 15, b_Year = 0,
         b_Timezone = ''UTC''\<rparr>,
        \<lparr>b_UserID = ''U3'', b_Username = ''cy'', b_Month = 4, b_Day = 1, b_Year = 1985,
         b_Timezone = ''UTC''\<rparr>,
        \<lparr>b_UserID = ''U4'', b_Username = ''dee'', b_Month = 3, b_Day = 15, b_Year = 1965,
         b_Timezone = ''UTC''\<rparr>]\<rparr>"

definition birthday_world :: World where
  "birthday_world = \<lparr>db = birthday_ledger, outbox = []\<rparr>"

lemma birthday_world_today:
  "todays_birthdays example_env (db birthday_world) =
     [\<lparr>b_UserID = ''U1'', b_Username = ''ann'', b_Month = 3, b_Day = 15, b_Year = 1990,
         b_Timezone = ''UTC''\<rparr>,
      \<lparr>b_UserID = ''U2'', b_Username = ''bob'', b_Month = 3, b_Day = 15, b_Year = 0,
         b_Timezone = ''UTC''\<rparr>,
      \<lparr>b_UserID = ''U4'', b_Username = ''dee'', b_Month = 3, b_Day = 15, b_Year = 1965,
         b_Timezone = ''UTC''\<rparr>]"
  by (simp add: todays_birthdays_def birthday_world_def birthday_ledger_def example_env_def
        createTables_def)

theorem birthday_sweep_one_message_each_witness:
  "\<not> fault_GetTodaysBirthdays example_env \<and>
   map p_Channel (outbox (SendBirthdayReminder example_handler example_env birthday_world)) =
     [''people'', ''people'', ''people''] \<and>
   p_Text (outbox (SendBirthdayReminder example_handler example_env birthday_world) ! 0) =
     birthday_message_with_age ''U1'' 36 \<and>
   p_Text (outbox (SendBirthdayReminder example_handler example_env birthday_world) ! 1) =
     birthday_message_generic ''U2'' \<and>
   fmt_d 36 @ getOrdinalSuffix 36 = ''36th''"
proof -
  have f: "\<not> fault_GetTodaysBirthdays example_env"
    by (simp add: example_env_def)
  let ?b1 = "\<lparr>b_UserID = ''U1'', b_Username = ''ann'', b_Month = 3, b_Day = 15, b_Year = 1990,
         b_Timezone = ''UTC''\<rparr>"
  let ?b2 = "\<lparr>b_UserID = ''U2'', b_Username = ''bob'', b_Month = 3, b_Day = 15, b_Year = 0,
         b_Timezone = ''UTC''\<rparr>"
  note t = birthday_sweep_one_message_each [of example_env example_handler birthday_world]
  from t [of ?b1] have m1: "birthday_message example_env ?b1 = birthday_message_with_age ''U1'' 36"
    by (simp add: example_env_def)
  from t [of ?b2] have m2: "birthday_message example_env ?b2 = birthday_message_generic ''U2''"
    by simp
  from t [of ?b1] f
  have o: "outbox (SendBirthdayReminder example_handler example_env birthday_world) =
      outbox birthday_world @ map (birthday_post example_handler example_env)
        (todays_birthdays example_env (db birthday_world))"
    by blast
  have s: "fmt_d 36 @ getOrdinalSuffix 36 = ''36th''"
    by (simp add: fmt_d_def getOrdinalSuffix_def go_rem_def digits_of.simps)
  from f m1 m2 s show ?thesis
    unfolding o birthday_world_today
    by (simp add: birthday_post_def birthday_world_def example_handler_def)
qed

definition failing_query_env :: Env where
  "failing_query_env = example_env\<lparr>fault_GetTodaysBirthdays := True\<rparr>"

text \<open>
  The claim as stated fails in two places. When the query fails the sweep posts nothing,
  whatever rows match today's date. And the test for the age-aware phrasing is
  \<^verbatim>\<open>birthday.Year > 1970\<close>, not "the year is known": a row with the known year 1965,
  which \<^verbatim>\<open>/set-birthday 03/15/1965\<close> stores, gets the generic phrasing.
\<close>

theorem birthday_sweep_counterexample:
  "length (todays_birthdays failing_query_env (db birthday_world)) = 3 \<and>
   outbox (SendBirthdayReminder example_handler failing_query_env birthday_world) = [] \<and>
   birthday_message example_env
     \<lparr>b_UserID = ''U4'', b_Username = ''dee'', b_Month = 3, b_Day = 15, b_Year = 1965,
      b_Timezone = ''UTC''\<rparr> = birthday_message_generic ''U4''"
  by (simp add: todays_birthdays_def failing_query_env_def example_env_def birthday_world_def
        birthday_ledger_def createTables_def SendBirthdayReminder_def GetTodaysBirthdays_def
        birthday_message_def)

subsection \<open>C9: seeding the canned responses twice\<close>

text \<open>\<open>response_texts d\<close>: the response texts that the canned-response table holds.\<close>

definition response_texts :: "Database \<Rightarrow> string set" where
  "response_texts d = s_Response ` set (sassy_responses d)"

lemma response_exists_absent:
  "response_exists fault txt d = Some ErrNoRows \<longleftrightarrow> \<not> fault \<and> txt \<notin> response_texts d"
  by (auto simp: response_exists_def response_texts_def)

lemma seed_loop_all_present:
  "s_Response ` set rs \<subseteq> response_texts d \<Longrightarrow> seed_loop faults i rs d = (None, d)"
  by (induction rs arbitrary: i) (simp_all add: response_exists_absent)

lemma response_texts_snoc:
  "response_texts (d\<lparr>sassy_responses := sassy_responses d @ [r]\<rparr>) =
     insert (s_Response r) (response_texts d)"
  by (auto simp: response_texts_def)

lemma seed_loop_no_fault:
  "(\<forall>j. faults j = SeedOk) \<Longrightarrow>
     fst (seed_loop faults i rs d) = None \<and>
     response_texts (snd (seed_loop faults i rs d)) = response_texts d \<union> s_Response ` set rs"
proof (induction rs arbitrary: i d)
  case Nil
  then show ?case by simp
next
  case (Cons r rs)
  show ?case
  proof (cases "s_Response r \<in> response_texts d")
    case True
    with Cons show ?thesis by (auto simp: response_exists_absent)
  next
    case False
    with Cons.prems
    have "seed_loop faults i (r # rs) d =
            seed_loop faults (Suc i) rs (d\<lparr>sassy_responses := sassy_responses d @ [r]\<rparr>)"
      by (simp add: response_exists_absent)
    with Cons.IH [OF Cons.prems, of "Suc i" "d\<lparr>sassy_responses := sassy_responses d @ [r]\<rparr>"]
    show ?thesis by (simp add: response_texts_snoc)
  qed
qed

lemma seed_loop_inserts_only_absent:
  "\<exists>new. sassy_responses (snd (seed_loop faults i rs d)) = sassy_responses d @ new \<and>
         set new \<subseteq> set rs \<and> (\<forall>r \<in> set new. s_Response r \<notin> response_texts d) \<and>
         distinct (map s_Response new)"
proof (induction rs arbitrary: i d)
  case Nil
  then show ?case by simp
next
  case (Cons r rs)
  show ?case
  proof (cases "response_exists (faults i = ExistsFails) (s_Response r) d = Some ErrNoRows
                  \<and> faults i \<noteq> InsertFails")
    case False
    with Cons [of "Suc i" d] show ?thesis by auto
  next
    case True
    let ?d = "d\<lparr>sassy_responses := sassy_responses d @ [r]\<rparr>"
    from True have absent: "s_Response r \<notin> response_texts d"
      by (simp add: response_exists_absent)
    from Cons [of "Suc i" ?d] obtain new where
      new: "sassy_responses (snd (seed_loop faults (Suc i) rs ?d)) = sassy_responses ?d @ new"
        "set new \<subseteq> set rs" "\<forall>x \<in> set new. s_Response x \<notin> response_texts ?d"
        "distinct (map s_Response new)"
      by blast
    have "sassy_responses (snd (seed_loop faults i (r # rs) d)) = sassy_responses d @ (r # new)"
      using True new(1) by simp
    moreover have "set (r # new) \<subseteq> set (r # rs)" using new(2) by auto
    moreover have "\<forall>x \<in> set (r # new). s_Response x \<notin> response_texts d"
      using new(3) absent by (auto simp: response_texts_snoc)
    moreover have "distinct (map s_Response (r # new))"
      using new(3,4) by (auto simp: response_texts_snoc)
    ultimately show ?thesis by blast
  qed
qed

text \<open>
  C9, as amended. Whatever faults are injected, the seeding only appends rows to the
  canned-response table: rows of the default list, with pairwise different texts, none of
  which was in the table before. When every default text is already in the table, the
  seeding changes nothing and reports no error. A run in which no statement fails reports
  no error and leaves every default text in the table, so a second run on the state it
  produced, with or without faults, leaves the table unchanged.
\<close>

theorem seeding_idempotent_after_complete_run:
  "(\<exists>new. sassy_responses (snd (insertDefaultSassyResponses faults d)) = sassy_responses d @ new \<and>
          set new \<subseteq> set default_responses \<and>
          (\<forall>r \<in> set new. s_Response r \<notin> response_texts d) \<and>
          distinct (map s_Response new)) \<and>
   (s_Response ` set default_responses \<subseteq> response_texts d \<longrightarrow>
      insertDefaultSassyResponses faults d = (None, d)) \<and>
   ((\<forall>j. first_faults j = SeedOk) \<longrightarrow>
      fst (insertDefaultSassyResponses first_faults d) = None \<and>
      insertDefaultSassyResponses faults (snd (insertDefaultSassyResponses first_faults d)) =
        (None, snd (insertDefaultSassyResponses first_faults d)))"
proof -
  have "insertDefaultSassyResponses faults (snd (insertDefaultSassyResponses first_faults d)) =
        (None, snd (insertDefaultSassyResponses first_faults d))"
    and "fst (insertDefaultSassyResponses first_faults d) = None"
    if ok: "\<forall>j. first_faults j = SeedOk"
  proof -
    from seed_loop_no_fault [OF ok, of 0 default_responses d]
    have f: "fst (insertDefaultSassyResponses first_faults d) = None"
      and p: "s_Response ` set default_responses \<subseteq>
        response_texts (snd (insertDefaultSassyResponses first_faults d))"
      by (auto simp: insertDefaultSassyResponses_def)
    from p show "insertDefaultSassyResponses faults (snd (insertDefaultSassyResponses first_faults d)) =
        (None, snd (insertDefaultSassyResponses first_faults d))"
      unfolding insertDefaultSassyResponses_def [of faults] by (rule seed_loop_all_present)
    from f show "fst (insertDefaultSassyResponses first_faults d) = None" .
  qed
  then show ?thesis
    using seed_loop_inserts_only_absent [of faults 0 default_responses d]
      seed_loop_all_present [of default_responses d faults 0]
    unfolding insertDefaultSassyResponses_def by blast
qed

definition no_seed_fault :: "nat \<Rightarrow> seed_fault" where
  "no_seed_fault i = SeedOk"

definition third_insert_fails :: "nat \<Rightarrow> seed_fault" where
  "third_insert_fails i = (if i = 2 then InsertFails else SeedOk)"

lemma seeding_empty_tables:
  "insertDefaultSassyResponses no_seed_fault createTables =
     (None, createTables\<lparr>sassy_responses := default_responses\<rparr>)"
  by (simp add: insertDefaultSassyResponses_def default_responses_def createTables_def
        response_exists_def no_seed_fault_def)

theorem seeding_idempotent_after_complete_run_witness:
  "(\<forall>j. no_seed_fault j = SeedOk) \<and>
   insertDefaultSassyResponses no_seed_fault createTables =
     (None, createTables\<lparr>sassy_responses := default_responses\<rparr>) \<and>
   insertDefaultSassyResponses third_insert_fails
       (createTables\<lparr>sassy_responses := default_responses\<rparr>) =
     (None, createTables\<lparr>sassy_responses := default_responses\<rparr>)"
proof -
  have ok: "\<forall>j. no_seed_fault j = SeedOk"
    by (simp add: no_seed_fault_def)
  from seeding_idempotent_after_complete_run [of third_insert_fails createTables no_seed_fault] ok
  have "insertDefaultSassyResponses third_insert_fails
          (snd (insertDefaultSassyResponses no_seed_fault createTables)) =
        (None, snd (insertDefaultSassyResponses no_seed_fault createTables))"
    by blast
  with ok show ?thesis by (simp add: seeding_empty_tables)
qed

text \<open>
  The claim as stated covers every state that a first run produces. Take a first run on
  the empty table whose third insert fails: the seeding returns the error at once, with two
  rows in the table (and \<^verbatim>\<open>New\<close> only logs a warning). The second run on that state
  inserts the eight default rows that are missing: the table changes.
\<close>

theorem seeding_after_failed_run_counterexample:
  "fst (insertDefaultSassyResponses third_insert_fails createTables) = Some ErrDriver \<and>
   length (sassy_responses (snd (insertDefaultSassyResponses third_insert_fails createTables))) = 2 \<and>
   length (sassy_responses
     (snd (insertDefaultSassyResponses no_seed_fault
             (snd (insertDefaultSassyResponses third_insert_fails createTables))))) = 10 \<and>
   insertDefaultSassyResponses no_seed_fault
       (snd (insertDefaultSassyResponses third_insert_fails createTables)) \<noteq>
     (None, snd (insertDefaultSassyResponses third_insert_fails createTables))"
proof -
  have a: "fst (insertDefaultSassyResponses third_insert_fails createTables) = Some ErrDriver \<and>
      length (sassy_responses (snd (insertDefaultSassyResponses third_insert_fails createTables))) = 2"
    by (simp add: insertDefaultSassyResponses_def default_responses_def createTables_def
          response_exists_def third_insert_fails_def)
  have b: "length (sassy_responses
     (snd (insertDefaultSassyResponses no_seed_fault
             (snd (insertDefaultSassyResponses third_insert_fails createTables))))) = 10"
    by (simp add: insertDefaultSassyResponses_def default_responses_def createTables_def
          response_exists_def third_insert_fails_def no_seed_fault_def)
  have "insertDefaultSassyResponses no_seed_fault
       (snd (insertDefaultSassyResponses third_insert_fails createTables)) \<noteq>
     (None, snd (insertDefaultSassyResponses third_insert_fails createTables))"
  proof
    assume "insertDefaultSassyResponses no_seed_fault
       (snd (insertDefaultSassyResponses third_insert_fails createTables)) =
     (None, snd (insertDefaultSassyResponses third_insert_fails createTables))"
    then have "length (sassy_responses
        (snd (insertDefaultSassyResponses no_seed_fault
                (snd (insertDefaultSassyResponses third_insert_fails createTables))))) =
      length (sassy_responses (snd (insertDefaultSassyResponses third_insert_fails createTables)))"
      by simp
    with a b show False by simp
  qed
  with a b show ?thesis by blast
qed

subsection \<open>C10: the glyph array is never indexed out of range\<close>

lemma leaderboard_rows_in_bounds:
  "leaderboard_rows i karmas response \<noteq> None \<longleftrightarrow>
     karmas = [] \<or> i + length karmas \<le> length emojis"
  by (induction karmas arbitrary: i response) auto

lemma length_emojis: "length emojis = 10"
  by (simp add: emojis_def)

text \<open>
  C10. For every ledger state and environment, neither leaderboard renderer panics on an
  index out of range: the glyph array has 10 entries, the rendering loop stays in range
  exactly when it is given at most 10 rows, and both renderers run the query with limit
  10, which returns at most 10 rows.
\<close>

theorem leaderboard_never_out_of_bounds:
  "handleTopKarmaCommand e cmd w \<noteq> None \<and> sendTopKarma e channel w \<noteq> None \<and>
   length emojis = 10 \<and>
   (leaderboard_rows 0 karmas response = None \<longleftrightarrow> 10 < length karmas)"
proof -
  have rows: "leaderboard_rows 0 ks r \<noteq> None" if "GetTopKarma f 10 d = Inr ks" for f d ks r
  proof -
    from that have "length ks \<le> 10"
      by (auto simp: GetTopKarma_def split: if_splits)
    then show ?thesis
      using leaderboard_rows_in_bounds [of 0 ks r] by (simp add: length_emojis)
  qed
  have "handleTopKarmaCommand e cmd w \<noteq> None"
  proof (cases "GetTopKarma (fault_GetTopKarma e) 10 (db w)")
    case (Inl err)
    then show ?thesis by (simp add: handleTopKarmaCommand_def)
  next
    case (Inr ks)
    from rows [OF Inr, of leaderboard_header] Inr show ?thesis
      by (auto simp: handleTopKarmaCommand_def)
  qed
  moreover have "sendTopKarma e channel w \<noteq> None"
  proof (cases "GetTopKarma (fault_GetTopKarma e) 10 (db w)")
    case (Inl err)
    then show ?thesis by (simp add: sendTopKarma_def)
  next
    case (Inr ks)
    from rows [OF Inr, of leaderboard_header] Inr show ?thesis
      by (auto simp: sendTopKarma_def)
  qed
  moreover have "leaderboard_rows 0 karmas response = None \<longleftrightarrow> 10 < length karmas"
    using leaderboard_rows_in_bounds [of 0 karmas response] by (auto simp: length_emojis)
  ultimately show ?thesis by (simp add: length_emojis)
qed

end
